theory Spec2Isabelle
  imports Main "HOL-Library.AList" "HOL-Library.Sublist"
begin

section \<open>Platform services used by the vault\<close>

text \<open>
  The vault is TypeScript on Node. Buffers, file contents and strings are all modelled as
  \<open>string\<close> (a list of bytes; text is its UTF-8 encoding). Library functions whose
  code is not part of the repository are taken as parameters, collected in the record
  \<open>platform\<close>: \<open>scryptSync\<close>, \<open>os.homedir\<close>, \<open>path.join\<close>,
  AES-256-GCM of \<open>node:crypto\<close> (\<open>None\<close> when decryption throws), base64 coding of
  Buffers, \<open>JSON.stringify\<close>/\<open>JSON.parse\<close> on credential payloads and on the
  credential vector, and the SHA-256 hex digest.
\<close>

record selectors =
  sel_email :: string
  sel_password :: string
  sel_submit :: string

record PlainCredentialData =
  pd_email :: "string option"
  pd_password :: "string option"
  pd_apiKey :: "string option"
  pd_headers :: "(string \<times> string) list option"

record CredentialMetadata =
  cred_id :: string
  siteId :: string
  serviceType :: string
  loginUrl :: "string option"
  selectors :: "selectors option"
  active :: bool
  createdAt :: string
  updatedAt :: string

record StoredCredential = CredentialMetadata +
  encryptedData :: string

record platform =
  scryptSync :: "string \<Rightarrow> string \<Rightarrow> nat \<Rightarrow> string"
  homedir :: string
  path_join :: "string \<Rightarrow> string \<Rightarrow> string"
  gcm_encrypt :: "string \<Rightarrow> string \<Rightarrow> string \<Rightarrow> string \<times> string"
  gcm_decrypt :: "string \<Rightarrow> string \<Rightarrow> string \<Rightarrow> string \<Rightarrow> string option"
  base64_encode :: "string \<Rightarrow> string"
  base64_decode :: "string \<Rightarrow> string"
  payload_stringify :: "PlainCredentialData \<Rightarrow> string"
  payload_parse :: "string \<Rightarrow> PlainCredentialData option"
  credentials_stringify :: "StoredCredential list \<Rightarrow> string"
  sha256_hex :: "string \<Rightarrow> string"

text \<open>
  The process state the code reads and writes: the environment variable
  \<open>VAULT_MASTER_KEY\<close>, the files by path, the module-level key cache of the keychain,
  and a log of every \<open>writeFile\<close>/\<open>appendFile\<close> (path and data, oldest first) so
  that "no write was performed" can be stated. Writes always succeed in the model;
  a missing file makes \<open>readFile\<close> throw, which is \<open>None\<close>. Directories
  (\<open>mkdir\<close>) and console output are not modelled.
\<close>

record world =
  env_VAULT_MASTER_KEY :: "string option"
  files :: "string \<Rightarrow> string option"
  write_log :: "(string \<times> string) list"
  cachedKey :: "string option"
  cachedKeySource :: "string option"

text \<open>
  What a call can throw: the cipher's failure, a \<open>SyntaxError\<close> of \<open>JSON.parse\<close>,
  and \<open>OutsideModel\<close> for an audit line the JSON model does not cover (see below).
\<close>

datatype error = CryptoError | SyntaxError | OutsideModel

definition readFile :: "string \<Rightarrow> world \<Rightarrow> string option" where
  "readFile path w = files w path"

definition writeFile :: "string \<Rightarrow> string \<Rightarrow> world \<Rightarrow> world" where
  "writeFile path data w =
     w\<lparr>files := (files w)(path \<mapsto> data), write_log := write_log w @ [(path, data)]\<rparr>"

definition appendFile :: "string \<Rightarrow> string \<Rightarrow> world \<Rightarrow> world" where
  "appendFile path data w =
     w\<lparr>files := (files w)(path \<mapsto> (case files w path of None \<Rightarrow> data | Some old \<Rightarrow> old @ data)),
       write_log := write_log w @ [(path, data)]\<rparr>"

text \<open>JavaScript's \<open>a || b\<close> for a string \<open>a\<close> that may be undefined: the empty string is falsy.\<close>

definition truthy :: "string option \<Rightarrow> bool" where
  "truthy a = (case a of None \<Rightarrow> False | Some s \<Rightarrow> s \<noteq> [])"

definition or_else :: "string option \<Rightarrow> string \<Rightarrow> string" where
  "or_else a b = (case a of None \<Rightarrow> b | Some s \<Rightarrow> if s = [] then b else s)"

section \<open>Keychain (master-key provider)\<close>

definition SCRYPT_SALT :: string where
  "SCRYPT_SALT = ''vault-mcp-salt''"

definition KEY_LENGTH :: nat where
  "KEY_LENGTH = 32"

definition getVaultDir :: "platform \<Rightarrow> string option \<Rightarrow> string" where
  "getVaultDir P dataDir = or_else dataDir (path_join P (homedir P) ''.vault-mcp'')"

definition clearKeyCache :: "world \<Rightarrow> world" where
  "clearKeyCache w = w\<lparr>cachedKey := None, cachedKeySource := None\<rparr>"

text \<open>The fingerprint under which \<open>getMasterKey\<close> caches: \<open>envKey || dataDir || 'default'\<close>.\<close>

definition key_source :: "string option \<Rightarrow> string option \<Rightarrow> string" where
  "key_source envKey dataDir = or_else envKey (or_else dataDir ''default'')"

text \<open>
  The body of \<open>getMasterKey\<close> after the cache check: the three resolution steps.
  \<open>newKey\<close> is what \<open>randomBytes(KEY_LENGTH)\<close> returns if step 3 is reached.
\<close>

definition resolveMasterKey :: "platform \<Rightarrow> string option \<Rightarrow> string \<Rightarrow> world \<Rightarrow> string \<times> world" where
  "resolveMasterKey P dataDir newKey w =
     (let envKey = env_VAULT_MASTER_KEY w;
          source = key_source envKey dataDir in
      if truthy envKey then
        (let k = scryptSync P (the envKey) SCRYPT_SALT KEY_LENGTH
         in (k, w\<lparr>cachedKey := Some k, cachedKeySource := Some source\<rparr>))
      else
        (let vaultDir = getVaultDir P dataDir;
             masterKeyFile = path_join P vaultDir ''.master-key'';
             generate =
               (let w' = writeFile masterKeyFile newKey w
                in (newKey, w'\<lparr>cachedKey := Some newKey, cachedKeySource := Some source\<rparr>))
         in case readFile masterKeyFile w of
              None \<Rightarrow> generate
            | Some fileContent \<Rightarrow>
                if length fileContent = KEY_LENGTH
                then (fileContent, w\<lparr>cachedKey := Some fileContent, cachedKeySource := Some source\<rparr>)
                else generate))"

definition cache_hit :: "string option \<Rightarrow> world \<Rightarrow> bool" where
  "cache_hit dataDir w =
     (cachedKey w \<noteq> None \<and>
      cachedKeySource w = Some (key_source (env_VAULT_MASTER_KEY w) dataDir))"

definition getMasterKey :: "platform \<Rightarrow> string option \<Rightarrow> string \<Rightarrow> world \<Rightarrow> string \<times> world" where
  "getMasterKey P dataDir newKey w =
     (if cache_hit dataDir w then (the (cachedKey w), w)
      else resolveMasterKey P dataDir newKey w)"

section \<open>Encrypted credential store\<close>

definition IV_LENGTH :: nat where
  "IV_LENGTH = 16"

definition AUTH_TAG_LENGTH :: nat where
  "AUTH_TAG_LENGTH = 16"

text \<open>
  \<open>Buffer.subarray(start, end)\<close>: a negative index counts from the end, and both
  indices are clamped to the buffer.
\<close>

definition clamp_index :: "nat \<Rightarrow> int \<Rightarrow> nat" where
  "clamp_index len i = (if i < 0 then nat (max (int len + i) 0) else min (nat i) len)"

definition subarray :: "string \<Rightarrow> int \<Rightarrow> int \<Rightarrow> string" where
  "subarray buf s e =
     (let a = clamp_index (length buf) s; b = clamp_index (length buf) e
      in take (b - a) (drop a buf))"

text \<open>\<open>iv\<close> is what \<open>randomBytes(IV_LENGTH)\<close> returns.\<close>

definition encrypt ::
  "platform \<Rightarrow> PlainCredentialData \<Rightarrow> string option \<Rightarrow> string \<Rightarrow> string \<Rightarrow> world \<Rightarrow> string \<times> world" where
  "encrypt P data dataDir iv newKey w =
     (let (key, w') = getMasterKey P dataDir newKey w;
          plaintext = payload_stringify P data;
          (ciphertext, authTag) = gcm_encrypt P key iv plaintext
      in (base64_encode P (iv @ ciphertext @ authTag), w'))"

definition decrypt ::
  "platform \<Rightarrow> string \<Rightarrow> string option \<Rightarrow> string \<Rightarrow> world \<Rightarrow> (error + PlainCredentialData) \<times> world" where
  "decrypt P encoded dataDir newKey w =
     (let (key, w') = getMasterKey P dataDir newKey w;
          buf = base64_decode P encoded;
          iv = subarray buf 0 (int IV_LENGTH);
          authTag = subarray buf (int (length buf) - int AUTH_TAG_LENGTH) (int (length buf));
          ciphertext = subarray buf (int IV_LENGTH) (int (length buf) - int AUTH_TAG_LENGTH)
      in case gcm_decrypt P key iv ciphertext authTag of
           None \<Rightarrow> (Inl CryptoError, w')
         | Some plaintext \<Rightarrow>
             (case payload_parse P plaintext of
                None \<Rightarrow> (Inl SyntaxError, w')
              | Some d \<Rightarrow> (Inr d, w')))"

record EncryptedStore =
  credentials :: "StoredCredential list"
  credentialsFile :: string
  dataDir :: "string option"

definition new_EncryptedStore :: "platform \<Rightarrow> string option \<Rightarrow> EncryptedStore" where
  "new_EncryptedStore P dd =
     \<lparr>credentials = [], credentialsFile = path_join P (getVaultDir P dd) ''credentials.json'',
      dataDir = dd\<rparr>"

definition toMetadata :: "StoredCredential \<Rightarrow> CredentialMetadata" where
  "toMetadata stored = CredentialMetadata.truncate stored"

definition save :: "platform \<Rightarrow> EncryptedStore \<Rightarrow> world \<Rightarrow> world" where
  "save P st w = writeFile (credentialsFile st) (credentials_stringify P (credentials st)) w"

text \<open>
  \<open>uuid\<close>, \<open>now\<close>, \<open>iv\<close> and \<open>newKey\<close> are the values of \<open>randomUUID()\<close>,
  \<open>new Date().toISOString()\<close>, \<open>randomBytes(16)\<close> and (if a key must be generated)
  \<open>randomBytes(32)\<close> during the call.
\<close>

definition addCredential ::
  "platform \<Rightarrow> EncryptedStore \<Rightarrow> world \<Rightarrow> string \<Rightarrow> string \<Rightarrow> PlainCredentialData \<Rightarrow>
   string option \<Rightarrow> selectors option \<Rightarrow> string \<Rightarrow> string \<Rightarrow> string \<Rightarrow> string \<Rightarrow>
   CredentialMetadata \<times> EncryptedStore \<times> world" where
  "addCredential P st w site stype plainData url sels uuid now iv newKey =
     (let (enc, w1) = encrypt P plainData (dataDir st) iv newKey w;
          stored = \<lparr>cred_id = uuid, siteId = site, serviceType = stype, loginUrl = url,
                    selectors = sels, active = True, createdAt = now, updatedAt = now,
                    encryptedData = enc\<rparr>;
          st' = st\<lparr>credentials := credentials st @ [stored]\<rparr>
      in (toMetadata stored, st', save P st' w1))"

definition getCredential ::
  "platform \<Rightarrow> EncryptedStore \<Rightarrow> world \<Rightarrow> string \<Rightarrow> string \<Rightarrow>
   (error + (CredentialMetadata \<times> PlainCredentialData) option) \<times> world" where
  "getCredential P st w site newKey =
     (case find (\<lambda>c. siteId c = site) (credentials st) of
        None \<Rightarrow> (Inr None, w)
      | Some stored \<Rightarrow>
          (case decrypt P (encryptedData stored) (dataDir st) newKey w of
             (Inl e, w') \<Rightarrow> (Inl e, w')
           | (Inr d, w') \<Rightarrow> (Inr (Some (toMetadata stored, d)), w')))"

definition listCredentials :: "EncryptedStore \<Rightarrow> CredentialMetadata list" where
  "listCredentials st = map toMetadata (credentials st)"

text \<open>\<open>Array.prototype.findIndex\<close>: the first index whose element satisfies the predicate.\<close>

fun findIndex :: "('a \<Rightarrow> bool) \<Rightarrow> 'a list \<Rightarrow> nat option" where
  "findIndex p [] = None"
| "findIndex p (x # xs) = (if p x then Some 0 else map_option Suc (findIndex p xs))"

definition removeCredential ::
  "platform \<Rightarrow> EncryptedStore \<Rightarrow> world \<Rightarrow> string \<Rightarrow> bool \<times> EncryptedStore \<times> world" where
  "removeCredential P st w site =
     (case findIndex (\<lambda>c. siteId c = site) (credentials st) of
        None \<Rightarrow> (False, st, w)
      | Some idx \<Rightarrow>
          (let st' = st\<lparr>credentials := take idx (credentials st) @ drop (Suc idx) (credentials st)\<rparr>
           in (True, st', save P st' w)))"

text \<open>
  \<open>toggleActive\<close> finds the first credential with the site identifier and assigns to
  the object found, which sits in the vector: the vector is updated at that index.
  \<open>now\<close> is \<open>new Date().toISOString()\<close>.
\<close>

definition toggleActive ::
  "platform \<Rightarrow> EncryptedStore \<Rightarrow> world \<Rightarrow> string \<Rightarrow> bool \<Rightarrow> string \<Rightarrow> bool \<times> EncryptedStore \<times> world" where
  "toggleActive P st w site act now =
     (case findIndex (\<lambda>c. siteId c = site) (credentials st) of
        None \<Rightarrow> (False, st, w)
      | Some idx \<Rightarrow>
          (let stored = credentials st ! idx;
               st' = st\<lparr>credentials := (credentials st)[idx := stored\<lparr>active := act, updatedAt := now\<rparr>]\<rparr>
           in (True, st', save P st' w)))"

text \<open>
  What the store relies on from the platform: AES-GCM decrypts, under the same key and IV,
  what it encrypted, and its tags have 16 bytes; base64 decoding inverts encoding;
  \<open>JSON.parse\<close> gives back the payload that \<open>JSON.stringify\<close> serialised.
\<close>

definition gcm_correct :: "platform \<Rightarrow> bool" where
  "gcm_correct P =
     (\<forall>key iv pt. case gcm_encrypt P key iv pt of
        (ct, tag) \<Rightarrow> length tag = AUTH_TAG_LENGTH \<and> gcm_decrypt P key iv ct tag = Some pt)"

definition base64_correct :: "platform \<Rightarrow> bool" where
  "base64_correct P = (\<forall>buf. base64_decode P (base64_encode P buf) = buf)"

definition json_roundtrip :: "platform \<Rightarrow> PlainCredentialData \<Rightarrow> bool" where
  "json_roundtrip P d = (payload_parse P (payload_stringify P d) = Some d)"

section \<open>JSON text\<close>

text \<open>
  \<open>JSON.stringify\<close> on the values the tools and the audit log serialise: objects keep
  their members in insertion order, a member whose value is undefined is left out by the
  caller of this function (it is simply not in the list), strings are quoted as
  ECMAScript's QuoteJSONString does on UTF-8 text (the two-character escapes, a
  \<open>u00XX\<close> escape in lower-case hexadecimal for the other control characters,
  everything else verbatim), numbers are the non-negative integers the code produces.
\<close>

datatype json = JNull | JBool bool | JNum nat | JStr string | JArr "json list"
  | JObj "(string \<times> json) list"

definition digit_char :: "nat \<Rightarrow> char" where
  "digit_char d = char_of (48 + d)"

function string_of_nat :: "nat \<Rightarrow> string" where
  "string_of_nat n =
     (if n < 10 then [digit_char n] else string_of_nat (n div 10) @ [digit_char (n mod 10)])"
  by pat_completeness auto
termination
  by (relation "measure (\<lambda>n. n)") auto

declare string_of_nat.simps [simp del]

definition hex_digit :: "nat \<Rightarrow> char" where
  "hex_digit d = (if d < 10 then char_of (48 + d) else char_of (87 + d))"

definition escape_char :: "char \<Rightarrow> string" where
  "escape_char c =
     (if c = CHR 0x22 then [CHR 0x5C, CHR 0x22]
      else if c = CHR 0x5C then [CHR 0x5C, CHR 0x5C]
      else if c = CHR 0x08 then [CHR 0x5C, CHR ''b'']
      else if c = CHR 0x0C then [CHR 0x5C, CHR ''f'']
      else if c = CHR 0x0A then [CHR 0x5C, CHR ''n'']
      else if c = CHR 0x0D then [CHR 0x5C, CHR ''r'']
      else if c = CHR 0x09 then [CHR 0x5C, CHR ''t'']
      else if (of_char c :: nat) < 32
        then [CHR 0x5C, CHR ''u'', CHR ''0'', CHR ''0'',
              hex_digit (of_char c div 16), hex_digit (of_char c mod 16)]
      else [c])"

definition quote :: "string \<Rightarrow> string" where
  "quote s = CHR 0x22 # concat (map escape_char s) @ [CHR 0x22]"

fun join :: "string \<Rightarrow> string list \<Rightarrow> string" where
  "join sep [] = []"
| "join sep [x] = x"
| "join sep (x # y # ys) = x @ sep @ join sep (y # ys)"

fun JSON_stringify :: "json \<Rightarrow> string" where
  "JSON_stringify JNull = ''null''"
| "JSON_stringify (JBool b) = (if b then ''true'' else ''false'')"
| "JSON_stringify (JNum n) = string_of_nat n"
| "JSON_stringify (JStr s) = quote s"
| "JSON_stringify (JArr xs) = ''['' @ join '','' (map JSON_stringify xs) @ '']''"
| "JSON_stringify (JObj kvs) =
     ''{'' @ join '','' (map (\<lambda>kv. quote (fst kv) @ '':'' @ JSON_stringify (snd kv)) kvs) @ ''}''"

text \<open>An object all of whose members are strings, as every audit entry is.\<close>

type_synonym jobj = "(string \<times> string) list"

definition obj_json :: "jobj \<Rightarrow> json" where
  "obj_json e = JObj (map (\<lambda>kv. (fst kv, JStr (snd kv))) e)"

text \<open>
  \<open>JSON.parse\<close> on one line, for the fragment of JSON the audit log is written in:
  one object whose member values are strings. \<open>Rejected\<close> is a thrown SyntaxError. A text
  that may be valid JSON outside the fragment (a value that is a number, a literal, an
  array or a nested object; a \<open>u\<close> escape beyond ASCII; a member name that is an array
  index, which an ECMAScript object would reorder) is \<open>Unmodelled\<close>: the model makes no
  statement about it. Text is bytes; \<open>readFile\<close>'s replacement of malformed UTF-8 is not
  modelled.
\<close>

datatype 'a parse_result = Parsed 'a | Rejected | Unmodelled

definition hex_val :: "char \<Rightarrow> nat option" where
  "hex_val c =
     (let n = (of_char c :: nat) in
      if 48 \<le> n \<and> n \<le> 57 then Some (n - 48)
      else if 97 \<le> n \<and> n \<le> 102 then Some (n - 87)
      else if 65 \<le> n \<and> n \<le> 70 then Some (n - 55)
      else None)"

definition unescape :: "char \<Rightarrow> char option" where
  "unescape e =
     (if e = CHR 0x22 then Some (CHR 0x22)
      else if e = CHR 0x5C then Some (CHR 0x5C)
      else if e = CHR ''/'' then Some (CHR ''/'')
      else if e = CHR ''b'' then Some (CHR 0x08)
      else if e = CHR ''f'' then Some (CHR 0x0C)
      else if e = CHR ''n'' then Some (CHR 0x0A)
      else if e = CHR ''r'' then Some (CHR 0x0D)
      else if e = CHR ''t'' then Some (CHR 0x09)
      else None)"

definition cons_char :: "char \<Rightarrow> (string \<times> string) parse_result \<Rightarrow> (string \<times> string) parse_result" where
  "cons_char c r = (case r of Parsed (s, rest) \<Rightarrow> Parsed (c # s, rest) | Rejected \<Rightarrow> Rejected
                    | Unmodelled \<Rightarrow> Unmodelled)"

text \<open>The characters of a string after its opening quote, up to the closing quote.\<close>

fun parse_string_body :: "string \<Rightarrow> (string \<times> string) parse_result" where
  "parse_string_body [] = Rejected"
| "parse_string_body (c # cs) =
     (if c = CHR 0x22 then Parsed ([], cs)
      else if c = CHR 0x5C then
        (case cs of
           [] \<Rightarrow> Rejected
         | e # cs1 \<Rightarrow>
             if e = CHR ''u'' then
               (case cs1 of
                  h1 # h2 # h3 # h4 # cs2 \<Rightarrow>
                    (case (hex_val h1, hex_val h2, hex_val h3, hex_val h4) of
                       (Some a, Some b, Some c', Some d) \<Rightarrow>
                         (let n = ((a * 16 + b) * 16 + c') * 16 + d in
                          if n < 128 then cons_char (char_of n) (parse_string_body cs2)
                          else Unmodelled)
                     | _ \<Rightarrow> Rejected)
                | _ \<Rightarrow> Rejected)
             else
               (case unescape e of
                  None \<Rightarrow> Rejected
                | Some ch \<Rightarrow> cons_char ch (parse_string_body cs1)))
      else if (of_char c :: nat) < 32 then Rejected
      else cons_char c (parse_string_body cs))"

definition is_json_ws :: "char \<Rightarrow> bool" where
  "is_json_ws c = (c = CHR 0x20 \<or> c = CHR 0x09 \<or> c = CHR 0x0A \<or> c = CHR 0x0D)"

definition skip_ws :: "string \<Rightarrow> string" where
  "skip_ws s = dropWhile is_json_ws s"

text \<open>A character that can begin a JSON value other than a string.\<close>

definition value_start :: "char \<Rightarrow> bool" where
  "value_start c = (c \<in> set ''{[-0123456789tfn'')"

lemma skip_ws_length: "length (skip_ws s) \<le> length s"
  by (simp add: skip_ws_def length_dropWhile_le)

lemma cons_char_Parsed:
  "cons_char c r = Parsed (v, rest) \<Longrightarrow> \<exists>v'. r = Parsed (v', rest)"
  by (auto simp: cons_char_def split: parse_result.splits)

lemma parse_string_body_length:
  "parse_string_body s = Parsed (v, rest) \<Longrightarrow> length rest < length s"
proof (induction s arbitrary: v rule: length_induct)
  case (1 s)
  then have IH: "\<And>t v'. length t < length s \<Longrightarrow> parse_string_body t = Parsed (v', rest)
      \<Longrightarrow> length rest < length t"
    by blast
  from "1.prems" obtain c cs where s: "s = c # cs"
    by (cases s) auto
  show ?case
  proof (cases "c = CHR 0x22")
    case True
    with "1.prems" s show ?thesis by simp
  next
    case nq: False
    show ?thesis
    proof (cases "c = CHR 0x5C")
      case False
      with nq "1.prems" s obtain v' where "parse_string_body cs = Parsed (v', rest)"
        by (auto split: if_splits dest: cons_char_Parsed)
      from IH[OF _ this] s show ?thesis by simp
    next
      case bs: True
      from "1.prems" nq bs s obtain e cs1 where cs: "cs = e # cs1"
        by (cases cs) auto
      show ?thesis
      proof (cases "e = CHR ''u''")
        case False
        with "1.prems" nq bs s cs obtain v' where "parse_string_body cs1 = Parsed (v', rest)"
          by (auto split: option.splits dest: cons_char_Parsed)
        from IH[OF _ this] s cs show ?thesis by simp
      next
        case u: True
        from "1.prems" nq bs s cs u obtain h1 h2 h3 h4 cs2 where cs1: "cs1 = h1 # h2 # h3 # h4 # cs2"
          by (auto split: list.splits)
        from "1.prems" nq bs s cs u cs1 obtain v' where "parse_string_body cs2 = Parsed (v', rest)"
          by (auto simp: Let_def split: option.splits if_splits dest: cons_char_Parsed)
        from IH[OF _ this] s cs cs1 show ?thesis by simp
      qed
    qed
  qed
qed

text \<open>The members of an object, from the first member's name on.\<close>

function parse_members :: "string \<Rightarrow> jobj parse_result" where
  "parse_members s =
     (case skip_ws s of
        [] \<Rightarrow> Rejected
      | c # r \<Rightarrow>
          if c \<noteq> CHR 0x22 then Rejected
          else
            (case parse_string_body r of
               Rejected \<Rightarrow> Rejected
             | Unmodelled \<Rightarrow> Unmodelled
             | Parsed (k, r1) \<Rightarrow>
                 (case skip_ws r1 of
                    [] \<Rightarrow> Rejected
                  | c1 # r2 \<Rightarrow>
                      if c1 \<noteq> CHR '':'' then Rejected
                      else
                        (case skip_ws r2 of
                           [] \<Rightarrow> Rejected
                         | c2 # r3 \<Rightarrow>
                             if c2 = CHR 0x22 then
                               (case parse_string_body r3 of
                                  Rejected \<Rightarrow> Rejected
                                | Unmodelled \<Rightarrow> Unmodelled
                                | Parsed (v, r4) \<Rightarrow>
                                    (case skip_ws r4 of
                                       [] \<Rightarrow> Rejected
                                     | c3 # r5 \<Rightarrow>
                                         if c3 = CHR '','' then
                                           (case parse_members r5 of
                                              Parsed kvs \<Rightarrow> Parsed ((k, v) # kvs)
                                            | Rejected \<Rightarrow> Rejected
                                            | Unmodelled \<Rightarrow> Unmodelled)
                                         else if c3 = CHR ''}'' then
                                           (if skip_ws r5 = [] then Parsed [(k, v)] else Rejected)
                                         else Rejected))
                             else if value_start c2 then Unmodelled
                             else Rejected))))"
  by pat_completeness auto
termination
proof (relation "measure length", simp, goal_cases)
  case (1 s c r x k r1 c1 r2 c2 r3 x' v r4 c3 r5)
  have "length r5 < length (skip_ws r4)" using 1 by simp
  also have "\<dots> \<le> length r4" by (rule skip_ws_length)
  also have "\<dots> < length r3" using 1 parse_string_body_length by auto
  also have "\<dots> < length (skip_ws r2)" using 1 by simp
  also have "\<dots> \<le> length r2" by (rule skip_ws_length)
  also have "\<dots> < length (skip_ws r1)" using 1 by simp
  also have "\<dots> \<le> length r1" by (rule skip_ws_length)
  also have "\<dots> < length r" using 1 parse_string_body_length by auto
  also have "\<dots> < length (skip_ws s)" using 1 by simp
  also have "\<dots> \<le> length s" by (rule skip_ws_length)
  finally show ?case by simp
qed

declare parse_members.simps [simp del]

definition is_digit :: "char \<Rightarrow> bool" where
  "is_digit c = (48 \<le> (of_char c :: nat) \<and> (of_char c :: nat) \<le> 57)"

text \<open>
  A member name that ECMAScript may treat as an array index (a canonical decimal
  numeral): such members are enumerated before the others, whatever the text's order.
\<close>

definition is_index_key :: "string \<Rightarrow> bool" where
  "is_index_key k = (k \<noteq> [] \<and> list_all is_digit k \<and> (k = ''0'' \<or> hd k \<noteq> CHR ''0''))"

text \<open>A repeated member name keeps its first position and takes the last value.\<close>

definition build_object :: "jobj \<Rightarrow> jobj" where
  "build_object kvs = fold (\<lambda>kv obj. AList.update (fst kv) (snd kv) obj) kvs []"

definition JSON_parse :: "string \<Rightarrow> jobj parse_result" where
  "JSON_parse text =
     (case skip_ws text of
        [] \<Rightarrow> Rejected
      | c # r \<Rightarrow>
          if c = CHR ''{'' then
            (case skip_ws r of
               [] \<Rightarrow> Rejected
             | c1 # r1 \<Rightarrow>
                 if c1 = CHR ''}'' then (if skip_ws r1 = [] then Parsed [] else Rejected)
                 else
                   (case parse_members r of
                      Parsed kvs \<Rightarrow>
                        if list_ex is_index_key (map fst kvs) then Unmodelled
                        else Parsed (build_object kvs)
                    | Rejected \<Rightarrow> Rejected
                    | Unmodelled \<Rightarrow> Unmodelled))
          else if c = CHR 0x22 \<or> value_start c then Unmodelled
          else Rejected)"

section \<open>Audit log\<close>

datatype audit_result = success | failure

definition result_text :: "audit_result \<Rightarrow> string" where
  "result_text r = (case r of success \<Rightarrow> ''success'' | failure \<Rightarrow> ''failure'')"

text \<open>String concatenation with a value that may be undefined.\<close>

definition js_string :: "string option \<Rightarrow> string" where
  "js_string a = (case a of None \<Rightarrow> ''undefined'' | Some s \<Rightarrow> s)"

definition computeHash :: "platform \<Rightarrow> string option \<Rightarrow> jobj \<Rightarrow> string" where
  "computeHash P prevHash entry = sha256_hex P (js_string prevHash @ JSON_stringify (obj_json entry))"

definition padStart :: "nat \<Rightarrow> char \<Rightarrow> string \<Rightarrow> string" where
  "padStart target c s = replicate (target - length s) c @ s"

definition formatEventId :: "nat \<Rightarrow> string" where
  "formatEventId n = ''evt_'' @ padStart 3 (CHR ''0'') (string_of_nat n)"

record AuditLogger =
  auditFile :: string
  vaultDir :: string

definition new_AuditLogger :: "platform \<Rightarrow> string option \<Rightarrow> AuditLogger" where
  "new_AuditLogger P dd =
     (let dir = or_else dd (path_join P (homedir P) ''.vault-mcp'')
      in \<lparr>auditFile = path_join P dir ''audit.jsonl'', vaultDir = dir\<rparr>)"

definition audit_init :: "AuditLogger \<Rightarrow> world \<Rightarrow> world" where
  "audit_init lg w =
     (case readFile (auditFile lg) w of
        Some content \<Rightarrow> w
      | None \<Rightarrow> writeFile (auditFile lg) [] w)"

text \<open>
  \<open>String.prototype.trim\<close>, \<open>split('\n')\<close> and \<open>filter(Boolean)\<close>. A string is
  the UTF-8 text of the file, so \<open>trim\<close> removes, at both ends, the byte sequences of
  the code points ECMAScript counts as WhiteSpace or LineTerminator: U+0009 to U+000D,
  U+0020, U+00A0, U+1680, U+2000 to U+200A, U+2028, U+2029, U+202F, U+205F, U+3000 and
  U+FEFF.
\<close>

definition js_white_space :: "string list" where
  "js_white_space =
     [[CHR 0x09], [CHR 0x0A], [CHR 0x0B], [CHR 0x0C], [CHR 0x0D], [CHR 0x20],
      [CHR 0xC2, CHR 0xA0],
      [CHR 0xE1, CHR 0x9A, CHR 0x80],
      [CHR 0xE2, CHR 0x80, CHR 0x80], [CHR 0xE2, CHR 0x80, CHR 0x81], [CHR 0xE2, CHR 0x80, CHR 0x82],
      [CHR 0xE2, CHR 0x80, CHR 0x83], [CHR 0xE2, CHR 0x80, CHR 0x84], [CHR 0xE2, CHR 0x80, CHR 0x85],
      [CHR 0xE2, CHR 0x80, CHR 0x86], [CHR 0xE2, CHR 0x80, CHR 0x87], [CHR 0xE2, CHR 0x80, CHR 0x88],
      [CHR 0xE2, CHR 0x80, CHR 0x89], [CHR 0xE2, CHR 0x80, CHR 0x8A],
      [CHR 0xE2, CHR 0x80, CHR 0xA8], [CHR 0xE2, CHR 0x80, CHR 0xA9], [CHR 0xE2, CHR 0x80, CHR 0xAF],
      [CHR 0xE2, CHR 0x81, CHR 0x9F],
      [CHR 0xE3, CHR 0x80, CHR 0x80],
      [CHR 0xEF, CHR 0xBB, CHR 0xBF]]"

text \<open>Removing from the front of \<open>s\<close> every leading occurrence of one of the sequences \<open>wss\<close>.\<close>

function strip_front :: "string list \<Rightarrow> string \<Rightarrow> string" where
  "strip_front wss s =
     (case find (\<lambda>ws. ws \<noteq> [] \<and> prefix ws s) wss of
        None \<Rightarrow> s
      | Some ws \<Rightarrow> strip_front wss (drop (length ws) s))"
  by pat_completeness auto
termination
proof (relation "measure (\<lambda>(wss, s). length s)", goal_cases)
  case 1
  show ?case by simp
next
  case (2 wss s ws)
  then have "ws \<noteq> []" "prefix ws s" by (auto simp: find_Some_iff)
  then show ?case by (cases s) (auto simp: prefix_def)
qed

declare strip_front.simps [simp del]

definition trimStart :: "string \<Rightarrow> string" where
  "trimStart s = strip_front js_white_space s"

definition trimEnd :: "string \<Rightarrow> string" where
  "trimEnd s = rev (strip_front (map rev js_white_space) (rev s))"

definition trim :: "string \<Rightarrow> string" where
  "trim s = trimEnd (trimStart s)"

fun split_lines :: "string \<Rightarrow> string list" where
  "split_lines [] = [[]]"
| "split_lines (c # cs) =
     (if c = CHR 0x0A then [] # split_lines cs
      else (case split_lines cs of [] \<Rightarrow> [[c]] | l # ls \<Rightarrow> (c # l) # ls))"

text \<open>\<open>lines.map(JSON.parse)\<close>: the first line that does not parse ends the call.\<close>

fun parse_lines :: "string list \<Rightarrow> error + jobj list" where
  "parse_lines [] = Inr []"
| "parse_lines (l # ls) =
     (case JSON_parse l of
        Rejected \<Rightarrow> Inl SyntaxError
      | Unmodelled \<Rightarrow> Inl OutsideModel
      | Parsed e \<Rightarrow> (case parse_lines ls of Inl err \<Rightarrow> Inl err | Inr es \<Rightarrow> Inr (e # es)))"

definition getEntries :: "AuditLogger \<Rightarrow> string option \<Rightarrow> world \<Rightarrow> error + jobj list" where
  "getEntries lg site w =
     (case readFile (auditFile lg) w of
        None \<Rightarrow> Inr []
      | Some content \<Rightarrow>
          (let lines = filter (\<lambda>l. l \<noteq> []) (split_lines (trim content))
           in case parse_lines lines of
                Inl err \<Rightarrow> Inl err
              | Inr entries \<Rightarrow>
                  if truthy site
                  then Inr (filter (\<lambda>e. map_of e ''credentialId'' = site) entries)
                  else Inr entries))"

text \<open>A property that is set only when its value is defined.\<close>

definition opt_field :: "string \<Rightarrow> string option \<Rightarrow> jobj" where
  "opt_field k v = (case v of None \<Rightarrow> [] | Some s \<Rightarrow> [(k, s)])"

text \<open>
  \<open>AuditLogger.log\<close>; \<open>now\<close> is \<open>new Date().toISOString()\<close>. \<open>new_entry\<close> is
  the entry that \<open>log\<close> synthesises from the entries it read: the
  object in the order its properties are created: the six fixed ones, then \<open>botId\<close> and
  \<open>details\<close> when given, then \<open>hash\<close>. Should the last entry on file have no
  \<open>hash\<close>, \<open>prevHash\<close> is undefined and \<open>JSON.stringify\<close> leaves it out.
\<close>

definition new_entry ::
  "platform \<Rightarrow> jobj list \<Rightarrow> string \<Rightarrow> string \<Rightarrow> audit_result \<Rightarrow> string option \<Rightarrow>
   string option \<Rightarrow> string \<Rightarrow> jobj" where
  "new_entry P entries action credentialId result botId details now =
     (let prevHash = (if entries \<noteq> [] then map_of (last entries) ''hash'' else Some ''genesis'');
          eventId = formatEventId (length entries + 1);
          partial = [(''eventId'', eventId), (''timestamp'', now), (''action'', action),
                     (''credentialId'', credentialId), (''result'', result_text result)]
                    @ opt_field ''prevHash'' prevHash
                    @ opt_field ''botId'' botId @ opt_field ''details'' details;
          hash = computeHash P prevHash partial
      in partial @ [(''hash'', hash)])"

definition log ::
  "platform \<Rightarrow> AuditLogger \<Rightarrow> string \<Rightarrow> string \<Rightarrow> audit_result \<Rightarrow> string option \<Rightarrow>
   string option \<Rightarrow> string \<Rightarrow> world \<Rightarrow> (error + jobj) \<times> world" where
  "log P lg action credentialId result botId details now w =
     (case getEntries lg None w of
        Inl err \<Rightarrow> (Inl err, w)
      | Inr entries \<Rightarrow>
          (let entry = new_entry P entries action credentialId result botId details now
           in (Inr entry, appendFile (auditFile lg) (JSON_stringify (obj_json entry) @ [CHR 0x0A]) w)))"

record chain_report =
  valid :: bool
  brokenAt :: "nat option"
  totalEntries :: nat

text \<open>The loop of \<open>verifyChain\<close>: the index of the first entry that fails a check.\<close>

function verify_from :: "platform \<Rightarrow> jobj list \<Rightarrow> nat \<Rightarrow> nat option" where
  "verify_from P entries i =
     (if i < length entries then
        (let entry = entries ! i;
             expectedPrevHash = (if i = 0 then Some ''genesis'' else map_of (entries ! (i - 1)) ''hash'')
         in if map_of entry ''prevHash'' \<noteq> expectedPrevHash then Some i
            else
              (let rest = filter (\<lambda>kv. fst kv \<noteq> ''hash'') entry;
                   expectedHash = computeHash P (map_of entry ''prevHash'') rest
               in if map_of entry ''hash'' \<noteq> Some expectedHash then Some i
                  else verify_from P entries (i + 1)))
      else None)"
  by pat_completeness auto
termination
  by (relation "measure (\<lambda>(P, entries, i). length entries - i)") auto

declare verify_from.simps [simp del]

definition verifyChain :: "platform \<Rightarrow> AuditLogger \<Rightarrow> world \<Rightarrow> error + chain_report" where
  "verifyChain P lg w =
     (case getEntries lg None w of
        Inl err \<Rightarrow> Inl err
      | Inr entries \<Rightarrow>
          if length entries = 0 then Inr \<lparr>valid = True, brokenAt = None, totalEntries = 0\<rparr>
          else
            (case verify_from P entries 0 of
               Some i \<Rightarrow> Inr \<lparr>valid = False, brokenAt = Some i, totalEntries = length entries\<rparr>
             | None \<Rightarrow> Inr \<lparr>valid = True, brokenAt = None, totalEntries = length entries\<rparr>))"

definition getLastHash :: "AuditLogger \<Rightarrow> world \<Rightarrow> error + string option" where
  "getLastHash lg w =
     (case getEntries lg None w of
        Inl err \<Rightarrow> Inl err
      | Inr entries \<Rightarrow>
          if length entries = 0 then Inr (Some ''genesis'') else Inr (map_of (last entries) ''hash''))"

text \<open>
  A sequence of sequential \<open>log\<close> calls, each awaited before the next starts; the first
  call that throws ends the sequence.
\<close>

record append_request =
  rq_action :: string
  rq_credentialId :: string
  rq_result :: audit_result
  rq_botId :: "string option"
  rq_details :: "string option"
  rq_now :: string

fun log_all :: "platform \<Rightarrow> AuditLogger \<Rightarrow> append_request list \<Rightarrow> world \<Rightarrow> (error + jobj list) \<times> world" where
  "log_all P lg [] w = (Inr [], w)"
| "log_all P lg (rq # rqs) w =
     (case log P lg (rq_action rq) (rq_credentialId rq) (rq_result rq) (rq_botId rq)
             (rq_details rq) (rq_now rq) w of
        (Inl err, w') \<Rightarrow> (Inl err, w')
      | (Inr entry, w') \<Rightarrow>
          (case log_all P lg rqs w' of
             (Inl err, w'') \<Rightarrow> (Inl err, w'')
           | (Inr entries, w'') \<Rightarrow> (Inr (entry # entries), w'')))"

section \<open>Auxiliary notions for the audit log\<close>

text \<open>The text of one member of a flat object, and the file that holds given lines.\<close>

definition member_text :: "string \<times> string \<Rightarrow> string" where
  "member_text kv = quote (fst kv) @ '':'' @ quote (snd kv)"

definition entry_line :: "jobj \<Rightarrow> string" where
  "entry_line e = JSON_stringify (obj_json e)"

definition file_of :: "string list \<Rightarrow> string" where
  "file_of ls = concat (map (\<lambda>l. l @ [CHR 0x0A]) ls)"

text \<open>
  An entry as \<open>log\<close> writes it: member names are distinct and none is an array index.
  \<open>on_file lg w es\<close>: the audit file of \<open>lg\<close> holds exactly the lines of the
  entries \<open>es\<close> (or does not exist yet, when there are none).
\<close>

definition wf_entry :: "jobj \<Rightarrow> bool" where
  "wf_entry e = (distinct (map fst e) \<and> \<not> list_ex is_index_key (map fst e))"

definition on_file :: "AuditLogger \<Rightarrow> world \<Rightarrow> jobj list \<Rightarrow> bool" where
  "on_file lg w es =
     (list_all wf_entry es \<and>
      (files w (auditFile lg) = Some (file_of (map entry_line es)) \<or>
       es = [] \<and> files w (auditFile lg) = None))"

text \<open>
  The chain invariant of the spec on a sequence of entries: the first \<open>prevHash\<close> is
  \<open>genesis\<close>, every later one is the previous entry's \<open>hash\<close>, every entry has a
  \<open>hash\<close>, and \<open>eventId\<close> is the formatted 1-based index.
\<close>

definition chain_linked :: "jobj list \<Rightarrow> bool" where
  "chain_linked es =
     (\<forall>i < length es.
        map_of (es ! i) ''prevHash'' =
          (if i = 0 then Some ''genesis'' else map_of (es ! (i - 1)) ''hash'') \<and>
        map_of (es ! i) ''hash'' \<noteq> None \<and>
        map_of (es ! i) ''eventId'' = Some (formatEventId (i + 1)))"

text \<open>
  The event identifier in the words of the specification: \<open>evt_\<close> followed by the
  1-based index zero-padded to three digits. \<open>digits_value\<close> reads a string of decimal
  digits; \<open>zero_padded3 n ds\<close> says that \<open>ds\<close> is the decimal numeral of \<open>n\<close>
  filled up with zeros on the left to three digits: decimal digits only, of value \<open>n\<close>,
  at least three of them, and no leading zero when there are more than three.
\<close>

definition digits_value :: "string \<Rightarrow> nat" where
  "digits_value ds = foldl (\<lambda>a c. 10 * a + (of_char c - 48)) 0 ds"

definition zero_padded3 :: "nat \<Rightarrow> string \<Rightarrow> bool" where
  "zero_padded3 n ds =
     (list_all is_digit ds \<and> digits_value ds = n \<and> 3 \<le> length ds \<and>
      (length ds = 3 \<or> hd ds \<noteq> CHR ''0''))"

text \<open>
  A line of the log: not empty, no line feed, and a printable ASCII character other than
  the space at either end (so no white space that \<open>trim\<close> would remove).
\<close>

definition plain :: "char \<Rightarrow> bool" where
  "plain c = (33 \<le> (of_char c :: nat) \<and> (of_char c :: nat) \<le> 126)"

definition solid :: "string \<Rightarrow> bool" where
  "solid l = (l \<noteq> [] \<and> CHR 0x0A \<notin> set l \<and> plain (hd l) \<and> plain (last l))"

text \<open>The two checks \<open>verifyChain\<close> makes on the entry at index \<open>k\<close>.\<close>

definition entry_ok :: "platform \<Rightarrow> jobj list \<Rightarrow> nat \<Rightarrow> bool" where
  "entry_ok P es k =
     (map_of (es ! k) ''prevHash'' =
        (if k = 0 then Some ''genesis'' else map_of (es ! (k - 1)) ''hash'') \<and>
      map_of (es ! k) ''hash'' =
        Some (computeHash P (map_of (es ! k) ''prevHash'') (filter (\<lambda>kv. fst kv \<noteq> ''hash'') (es ! k))))"

section \<open>Tools\<close>

subsection \<open>vault_list and vault_status\<close>

text \<open>
  The tools return objects that the server serialises with \<open>JSON.stringify\<close>; the
  model returns them as \<open>json\<close> values, with members whose value is undefined left out.
  Neither function takes the platform or reads the key: they cannot decrypt.
\<close>

definition vaultList :: "EncryptedStore \<Rightarrow> json" where
  "vaultList st =
     JObj [(''credentials'',
            JArr (map (\<lambda>c. JObj [(''siteId'', JStr (siteId c)),
                                  (''serviceType'', JStr (serviceType c)),
                                  (''active'', JBool (active c))])
                      (listCredentials st)))]"

definition opt_member :: "string \<Rightarrow> string option \<Rightarrow> (string \<times> json) list" where
  "opt_member k v = (case v of None \<Rightarrow> [] | Some s \<Rightarrow> [(k, JStr s)])"

definition vaultStatus :: "EncryptedStore \<Rightarrow> AuditLogger \<Rightarrow> string \<Rightarrow> world \<Rightarrow> error + json" where
  "vaultStatus st lg site w =
     (case find (\<lambda>c. siteId c = site) (listCredentials st) of
        None \<Rightarrow> Inr (JObj [(''error'', JStr (''Credential not found: '' @ site))])
      | Some cred \<Rightarrow>
          (case getEntries lg (Some site) w of
             Inl err \<Rightarrow> Inl err
           | Inr entries \<Rightarrow>
               Inr (JObj [(''siteId'', JStr (siteId cred)),
                          (''serviceType'', JStr (serviceType cred)),
                          (''active'', JBool (active cred)),
                          (''createdAt'', JStr (createdAt cred)),
                          (''updatedAt'', JStr (updatedAt cred)),
                          (''auditCount'', JNum (length entries)),
                          (''lastUsed'',
                           if entries \<noteq> []
                           then JObj (opt_member ''timestamp'' (map_of (last entries) ''timestamp'')
                                      @ opt_member ''action'' (map_of (last entries) ''action'')
                                      @ opt_member ''result'' (map_of (last entries) ''result''))
                           else JNull)])))"

subsection \<open>vault_login\<close>

record LoginRecipe =
  lr_loginUrl :: string
  lr_emailSelector :: string
  lr_passwordSelector :: string
  lr_submitSelector :: string

record LoginResult =
  lres_success :: bool
  lres_pageTitle :: string
  lres_currentUrl :: string
  lres_message :: string

record login_response =
  lo_status :: string
  lo_page_title :: "string option"
  lo_message :: string

text \<open>
  \<open>CdpBridge.performLogin\<close> drives a browser; it is a parameter \<open>bridge\<close> of the
  model (it always returns a \<open>LoginResult\<close>, as its code catches every error). The
  third component of the result lists the invocations of the adapter the call made.
  \<open>audit_failure\<close> is the pair of statements each failed precondition runs: one
  \<open>audit.log\<close> with result \<open>failure\<close> and the reason, then the failure response.
\<close>

type_synonym bridge_call = "LoginRecipe \<times> string \<times> string"

definition audit_failure ::
  "platform \<Rightarrow> AuditLogger \<Rightarrow> string \<Rightarrow> string \<Rightarrow> string \<Rightarrow> string \<Rightarrow> world \<Rightarrow>
   (error + login_response) \<times> world \<times> bridge_call list" where
  "audit_failure P lg site reason msg now w =
     (case log P lg ''credential.used'' site failure (Some ''claude'') (Some reason) now w of
        (Inl err, w') \<Rightarrow> (Inl err, w', [])
      | (Inr entry, w') \<Rightarrow>
          (Inr \<lparr>lo_status = ''failure'', lo_page_title = None, lo_message = msg\<rparr>, w', []))"

definition vaultLogin ::
  "platform \<Rightarrow> (LoginRecipe \<Rightarrow> string \<Rightarrow> string \<Rightarrow> LoginResult) \<Rightarrow> EncryptedStore \<Rightarrow>
   AuditLogger \<Rightarrow> string \<Rightarrow> string \<Rightarrow> string \<Rightarrow> world \<Rightarrow>
   (error + login_response) \<times> world \<times> bridge_call list" where
  "vaultLogin P bridge st lg site newKey now w =
     (case getCredential P st w site newKey of
        (Inl err, w1) \<Rightarrow> (Inl err, w1, [])
      | (Inr None, w1) \<Rightarrow>
          audit_failure P lg site ''Credential not found'' (''Credential not found: '' @ site) now w1
      | (Inr (Some (metadata, data)), w1) \<Rightarrow>
          if \<not> active metadata then
            audit_failure P lg site ''Credential is inactive'' (''Credential is inactive: '' @ site) now w1
          else if serviceType metadata \<noteq> ''web_login'' then
            audit_failure P lg site ''Not a web_login credential''
              (site @ '' is not a web_login credential. Use vault_api_request instead.'') now w1
          else if \<not> truthy (loginUrl metadata) \<or> selectors metadata = None then
            audit_failure P lg site ''Missing login URL or selectors''
              (site @ '' is missing loginUrl or selectors configuration'') now w1
          else
            (let sels = the (selectors metadata);
                 recipe = \<lparr>lr_loginUrl = the (loginUrl metadata), lr_emailSelector = sel_email sels,
                           lr_passwordSelector = sel_password sels, lr_submitSelector = sel_submit sels\<rparr>;
                 email = or_else (pd_email data) [];
                 password = or_else (pd_password data) [];
                 result = bridge recipe email password
             in case log P lg ''credential.used'' site
                       (if lres_success result then success else failure)
                       (Some ''claude'') (Some (lres_message result)) now w1 of
                  (Inl err, w2) \<Rightarrow> (Inl err, w2, [(recipe, email, password)])
                | (Inr entry, w2) \<Rightarrow>
                    (Inr \<lparr>lo_status = (if lres_success result then ''success'' else ''failure''),
                          lo_page_title = Some (lres_pageTitle result),
                          lo_message = lres_message result\<rparr>,
                     w2, [(recipe, email, password)])))"

text \<open>
  The preconditions of \<open>login\<close> in the order of the spec (the credential exists, is
  active, is of type \<open>web_login\<close>, has a login URL and selectors): the audit reason and
  the message of the first one that fails, if any.
\<close>

definition first_failed_precondition ::
  "string \<Rightarrow> (CredentialMetadata \<times> PlainCredentialData) option \<Rightarrow> (string \<times> string) option" where
  "first_failed_precondition site cred =
     (case cred of
        None \<Rightarrow> Some (''Credential not found'', ''Credential not found: '' @ site)
      | Some (metadata, data) \<Rightarrow>
          if \<not> active metadata
            then Some (''Credential is inactive'', ''Credential is inactive: '' @ site)
          else if serviceType metadata \<noteq> ''web_login''
            then Some (''Not a web_login credential'',
                       site @ '' is not a web_login credential. Use vault_api_request instead.'')
          else if loginUrl metadata = None \<or> loginUrl metadata = Some [] \<or> selectors metadata = None
            then Some (''Missing login URL or selectors'',
                       site @ '' is missing loginUrl or selectors configuration'')
          else None)"

subsection \<open>vault_api_request\<close>

text \<open>\<open>{...a, ...b}\<close>: the properties of \<open>a\<close>, then those of \<open>b\<close>, into a new object.\<close>

definition js_spread :: "(string \<times> string) list \<Rightarrow> (string \<times> string) list \<Rightarrow> (string \<times> string) list" where
  "js_spread a b = fold (\<lambda>kv obj. AList.update (fst kv) (snd kv) obj) (a @ b) []"

text \<open>
  \<open>String.prototype.replaceAll\<close> with string arguments. An empty pattern matches
  between all characters (the callers below never pass one).
\<close>

function replaceAll :: "string \<Rightarrow> string \<Rightarrow> string \<Rightarrow> string" where
  "replaceAll pat rep s =
     (if pat = [] then rep @ concat (map (\<lambda>c. c # rep) s)
      else if s = [] then []
      else if prefix pat s then rep @ replaceAll pat rep (drop (length pat) s)
      else hd s # replaceAll pat rep (tl s))"
  by pat_completeness auto
termination
  by (relation "measure (\<lambda>(pat, rep, s). length s)") auto

declare replaceAll.simps [simp del]

definition sanitize :: "string list \<Rightarrow> string \<Rightarrow> string" where
  "sanitize secrets text =
     fold (\<lambda>secret t. if secret \<noteq> [] \<and> sublist secret t then replaceAll secret ''***'' t else t)
       secrets text"

record fetch_options =
  fo_method :: string
  fo_headers :: "(string \<times> string) list"
  fo_body :: "string option"

record api_response =
  ar_status :: string
  ar_httpStatus :: "nat option"
  ar_body :: "string option"
  ar_message :: "string option"

type_synonym fetch_call = "string \<times> fetch_options"

text \<open>
  The separator the code puts between the URL and the status in the audit details, byte
  for byte as the source file has it.
\<close>

definition arrow :: string where
  "arrow = [CHR 0xC3, CHR 0xA2, CHR 0xE2, CHR 0x80, CHR 0xA0, CHR 0xE2, CHR 0x80, CHR 0x99]"

definition api_failure ::
  "platform \<Rightarrow> AuditLogger \<Rightarrow> string \<Rightarrow> string \<Rightarrow> string \<Rightarrow> string \<Rightarrow> world \<Rightarrow>
   (error + api_response) \<times> world \<times> fetch_call list" where
  "api_failure P lg service reason msg now w =
     (case log P lg ''credential.used'' service failure (Some ''claude'') (Some reason) now w of
        (Inl err, w') \<Rightarrow> (Inl err, w', [])
      | (Inr entry, w') \<Rightarrow>
          (Inr \<lparr>ar_status = ''failure'', ar_httpStatus = None, ar_body = None,
                ar_message = Some msg\<rparr>, w', []))"

text \<open>
  \<open>fetch\<close> is a parameter: \<open>Inr (status, body)\<close> is a response whose text was read,
  \<open>Inl message\<close> an error thrown by \<open>fetch\<close> or \<open>response.text()\<close>. \<open>err_text\<close>
  gives the message of an error thrown by \<open>audit.log\<close> inside the \<open>try\<close> block. The
  third component of the result lists the calls of \<open>fetch\<close> with their options.
\<close>

definition vaultApiRequest ::
  "platform \<Rightarrow> (string \<Rightarrow> fetch_options \<Rightarrow> string + (nat \<times> string)) \<Rightarrow> (error \<Rightarrow> string) \<Rightarrow>
   EncryptedStore \<Rightarrow> AuditLogger \<Rightarrow> string \<Rightarrow> string \<Rightarrow> string option \<Rightarrow> string option \<Rightarrow>
   (string \<times> string) list option \<Rightarrow> string \<Rightarrow> string \<Rightarrow> world \<Rightarrow>
   (error + api_response) \<times> world \<times> fetch_call list" where
  "vaultApiRequest P fetch err_text st lg service url method_arg body headers newKey now w =
     (let method = (case method_arg of None \<Rightarrow> ''GET'' | Some m \<Rightarrow> m) in
      case getCredential P st w service newKey of
        (Inl err, w1) \<Rightarrow> (Inl err, w1, [])
      | (Inr None, w1) \<Rightarrow>
          api_failure P lg service ''Credential not found'' (''Credential not found: '' @ service) now w1
      | (Inr (Some (metadata, data)), w1) \<Rightarrow>
          if \<not> active metadata then
            api_failure P lg service ''Credential is inactive''
              (''Credential is inactive: '' @ service) now w1
          else if serviceType metadata \<noteq> ''api_key'' then
            api_failure P lg service ''Not an api_key credential''
              (service @ '' is not an api_key credential. Use vault_login instead.'') now w1
          else
            (let storedHeaders = (case pd_headers data of None \<Rightarrow> [] | Some h \<Rightarrow> h);
                 mergedHeaders = js_spread storedHeaders (case headers of None \<Rightarrow> [] | Some h \<Rightarrow> h);
                 secrets = (if truthy (pd_apiKey data) then [the (pd_apiKey data)] else [])
                           @ map snd storedHeaders;
                 fetchOptions = \<lparr>fo_method = method, fo_headers = mergedHeaders,
                                 fo_body = (if truthy body \<and> method \<noteq> ''GET'' then body else None)\<rparr>;
                 catch = (\<lambda>raw w2.
                   (let message = sanitize secrets raw in
                    case log P lg ''credential.used'' service failure (Some ''claude'') (Some message) now w2 of
                      (Inl err, w3) \<Rightarrow> (Inl err, w3, [(url, fetchOptions)])
                    | (Inr entry, w3) \<Rightarrow>
                        (Inr \<lparr>ar_status = ''failure'', ar_httpStatus = None, ar_body = None,
                              ar_message = Some message\<rparr>, w3, [(url, fetchOptions)])))
             in case fetch url fetchOptions of
                  Inl raw \<Rightarrow> catch raw w1
                | Inr (status, text) \<Rightarrow>
                    (let responseBody = sanitize secrets text in
                     case log P lg ''credential.used'' service success (Some ''claude'')
                            (Some (method @ '' '' @ url @ '' '' @ arrow @ '' '' @ string_of_nat status))
                            now w1 of
                       (Inl err, w2) \<Rightarrow> catch (err_text err) w2
                     | (Inr entry, w2) \<Rightarrow>
                         (Inr \<lparr>ar_status = ''success'', ar_httpStatus = Some status,
                               ar_body = Some responseBody, ar_message = None\<rparr>,
                          w2, [(url, fetchOptions)]))))"

section \<open>Entry-form gateway and vault_add\<close>

text \<open>
  The module state of the dashboard server: the map \<open>pendingCallbacks\<close> from token to
  the \<open>resolve\<close> function of the promise \<open>onCredentialAdded\<close> returned, and the timers
  it scheduled. Promises are numbered; \<open>settled\<close> holds the value each promise was
  resolved with. Calling the \<open>resolve\<close> function of a promise that is already resolved
  does nothing, as in ECMAScript. The event loop runs one callback at a time, so a timer
  callback and the synchronous notification block of the POST handler are atomic steps.
\<close>

record gateway =
  pendingCallbacks :: "string \<Rightarrow> nat option"
  settled :: "nat \<Rightarrow> string option"
  timers :: "(string \<times> nat) list"
  promise_count :: nat

definition new_gateway :: gateway where
  "new_gateway = \<lparr>pendingCallbacks = Map.empty, settled = Map.empty, timers = [], promise_count = 0\<rparr>"

definition resolve :: "nat \<Rightarrow> string \<Rightarrow> gateway \<Rightarrow> gateway" where
  "resolve p v g = (case settled g p of None \<Rightarrow> g\<lparr>settled := (settled g)(p \<mapsto> v)\<rparr> | Some old \<Rightarrow> g)"

text \<open>\<open>onCredentialAdded(token)\<close>: the new promise, registered and with its timer scheduled.\<close>

definition onCredentialAdded :: "string \<Rightarrow> gateway \<Rightarrow> nat \<times> gateway" where
  "onCredentialAdded token g =
     (let p = promise_count g
      in (p, g\<lparr>pendingCallbacks := (pendingCallbacks g)(token \<mapsto> p),
               timers := timers g @ [(token, p)],
               promise_count := p + 1\<rparr>))"

text \<open>The timer callback of the registration of \<open>token\<close> with promise \<open>p\<close>, after five minutes.\<close>

definition timer_fires :: "string \<Rightarrow> nat \<Rightarrow> gateway \<Rightarrow> gateway" where
  "timer_fires token p g =
     (if pendingCallbacks g token \<noteq> None
      then resolve p ''__timeout__'' (g\<lparr>pendingCallbacks := (pendingCallbacks g)(token := None)\<rparr>)
      else g)"

text \<open>The notification block of the POST handler.\<close>

definition notify :: "string option \<Rightarrow> string \<Rightarrow> gateway \<Rightarrow> gateway" where
  "notify token site g =
     (if truthy token then
        (case pendingCallbacks g (the token) of
           None \<Rightarrow> g
         | Some cb \<Rightarrow> resolve cb site (g\<lparr>pendingCallbacks := (pendingCallbacks g)(the token := None)\<rparr>))
      else g)"

record add_response =
  ad_status :: string
  ad_site_id :: "string option"
  ad_message :: string

text \<open>
  \<open>vaultAdd\<close> up to its \<open>await\<close> (\<open>token\<close> is \<open>randomUUID()\<close>; \<open>encode\<close> stands for
  the serialisation of \<open>URLSearchParams\<close>; starting the server and opening the browser
  are not modelled), and from the value the promise resolved with to the response.
\<close>

definition vaultAdd_begin ::
  "(string \<Rightarrow> string) \<Rightarrow> string \<Rightarrow> string option \<Rightarrow> string option \<Rightarrow> gateway \<Rightarrow> nat \<times> string \<times> gateway" where
  "vaultAdd_begin encode token site stype g =
     (let params = [''token='' @ encode token]
                   @ (if truthy site then [''site='' @ encode (the site)] else [])
                   @ (if truthy stype then [''type='' @ encode (the stype)] else []);
          url = ''http://localhost:9900/add?'' @ join ''&'' params;
          (p, g') = onCredentialAdded token g
      in (p, url, g'))"

definition vaultAdd_finish :: "string \<Rightarrow> add_response" where
  "vaultAdd_finish result =
     (if result = ''__timeout__'' then
        \<lparr>ad_status = ''timeout'', ad_site_id = None,
         ad_message = ''Credential form was not submitted within 5 minutes. Try again with vault_add.''\<rparr>
      else
        \<lparr>ad_status = ''success'', ad_site_id = Some result,
         ad_message = ''Credential '' @ [CHR 0x22] @ result @ [CHR 0x22] @
           '' has been securely added to the vault. You can now use vault_login or vault_api_request with it.''\<rparr>)"

text \<open>What the waiting \<open>vaultAdd\<close> call of promise \<open>p\<close> returns; \<open>None\<close> while it waits.\<close>

definition vaultAdd_returns :: "nat \<Rightarrow> gateway \<Rightarrow> add_response option" where
  "vaultAdd_returns p g = map_option vaultAdd_finish (settled g p)"

text \<open>
  The body of \<open>POST /api/credentials\<close> as the form sends it (\<open>siteId\<close> and
  \<open>serviceType\<close> present), and the handler of that route. An error thrown inside is
  caught by the handler and answered with status 500.
\<close>

record post_body =
  pb_siteId :: string
  pb_serviceType :: string
  pb_email :: "string option"
  pb_password :: "string option"
  pb_apiKey :: "string option"
  pb_loginUrl :: "string option"
  pb_selectors :: "selectors option"
  pb_headerName :: "string option"
  pb_headerPrefix :: "string option"
  pb_token :: "string option"

datatype http_response = Created CredentialMetadata | InternalServerError

definition post_credentials ::
  "platform \<Rightarrow> EncryptedStore \<Rightarrow> AuditLogger \<Rightarrow> gateway \<Rightarrow> post_body \<Rightarrow> string \<Rightarrow> string \<Rightarrow>
   string \<Rightarrow> string \<Rightarrow> string \<Rightarrow> world \<Rightarrow> http_response \<times> EncryptedStore \<times> gateway \<times> world" where
  "post_credentials P st lg g body uuid now iv newKey now' w =
     (let plainData =
            (if pb_serviceType body = ''api_key'' then
               \<lparr>pd_email = None, pd_password = None, pd_apiKey = pb_apiKey body,
                pd_headers = Some [(or_else (pb_headerName body) ''Authorization'',
                                    or_else (pb_headerPrefix body) ''Bearer '' @ js_string (pb_apiKey body))]\<rparr>
             else
               \<lparr>pd_email = pb_email body, pd_password = pb_password body, pd_apiKey = None,
                pd_headers = None\<rparr>);
          finalSelectors = (if pb_serviceType body = ''api_key'' then None else pb_selectors body);
          (meta, st', w1) = addCredential P st w (pb_siteId body) (pb_serviceType body) plainData
                              (pb_loginUrl body) finalSelectors uuid now iv newKey
      in case log P lg ''credential.created'' (pb_siteId body) success None (Some ''via dashboard'') now' w1 of
           (Inl err, w2) \<Rightarrow> (InternalServerError, st', g, w2)
         | (Inr entry, w2) \<Rightarrow> (Created meta, st', notify (pb_token body) (pb_siteId body) g, w2))"

text \<open>The events that can touch a pending slot, and a sequence of them.\<close>

datatype gateway_event = TimerFires string nat | Submission "string option" string

definition gateway_step :: "gateway_event \<Rightarrow> gateway \<Rightarrow> gateway" where
  "gateway_step e g = (case e of TimerFires token p \<Rightarrow> timer_fires token p g
                       | Submission token site \<Rightarrow> notify token site g)"

section \<open>Concrete instances used in examples\<close>

text \<open>
  A small executable platform for evaluating the model on concrete inputs. Its functions
  are stand-ins with the shape of the real ones (a 16-byte tag that depends on the key, a
  payload codec that knows four payloads); no theorem below depends on them except the
  examples that name \<open>demo_platform\<close>.
\<close>

definition demo_old_payload :: PlainCredentialData where
  "demo_old_payload =
     \<lparr>pd_email = Some ''old@test.com'', pd_password = Some ''pw-old'',
      pd_apiKey = None, pd_headers = None\<rparr>"

definition demo_web_payload :: PlainCredentialData where
  "demo_web_payload =
     \<lparr>pd_email = Some ''user@test.com'', pd_password = Some ''P@ssw0rd!'',
      pd_apiKey = None, pd_headers = None\<rparr>"

definition demo_api_payload :: PlainCredentialData where
  "demo_api_payload =
     \<lparr>pd_email = None, pd_password = None, pd_apiKey = Some ''sk-live-123'',
      pd_headers = Some [(''Authorization'', ''Bearer sk-live-123'')]\<rparr>"

definition demo_short_payload :: PlainCredentialData where
  "demo_short_payload =
     \<lparr>pd_email = Some ''a'', pd_password = Some ''b'', pd_apiKey = None, pd_headers = None\<rparr>"

definition demo_tag :: "string \<Rightarrow> string" where
  "demo_tag key = take 16 (key @ replicate 16 (CHR ''t''))"

definition demo_hex :: "int \<Rightarrow> char" where
  "demo_hex d = ''0123456789abcdef'' ! nat d"

definition demo_hash :: "string \<Rightarrow> string" where
  "demo_hash s =
     (let h = foldl (\<lambda>a c. (a * 31 + of_char c) mod 65536) (7::int) s
      in [demo_hex (h div 4096), demo_hex (h div 256 mod 16), demo_hex (h div 16 mod 16),
          demo_hex (h mod 16)])"

definition demo_platform :: platform where
  "demo_platform =
     \<lparr>scryptSync = (\<lambda>pw salt n. take n (pw @ salt @ replicate n (CHR ''0''))),
      homedir = ''/home/u'',
      path_join = (\<lambda>a b. a @ ''/'' @ b),
      gcm_encrypt = (\<lambda>key iv pt. (pt, demo_tag key)),
      gcm_decrypt = (\<lambda>key iv ct tag. if tag = demo_tag key then Some ct else None),
      base64_encode = (\<lambda>b. b),
      base64_decode = (\<lambda>s. s),
      payload_stringify = (\<lambda>d. if d = demo_old_payload then ''O''
                                else if d = demo_web_payload then ''W''
                                else if d = demo_api_payload then ''A''
                                else if d = demo_short_payload then ''S'' else ''?''),
      payload_parse = (\<lambda>s. if s = ''O'' then Some demo_old_payload
                            else if s = ''W'' then Some demo_web_payload
                            else if s = ''A'' then Some demo_api_payload
                            else if s = ''S'' then Some demo_short_payload else None),
      credentials_stringify = (\<lambda>cs. concat (map siteId cs)),
      sha256_hex = demo_hash\<rparr>"

definition demo_world :: world where
  "demo_world =
     \<lparr>env_VAULT_MASTER_KEY = Some ''integration-test-key'', files = Map.empty,
      write_log = [], cachedKey = None, cachedKeySource = None\<rparr>"

definition demo_iv :: string where
  "demo_iv = ''0123456789abcdef''"

definition demo_cred :: "string \<Rightarrow> string \<Rightarrow> bool \<Rightarrow> string \<Rightarrow> StoredCredential" where
  "demo_cred site stype act enc =
     \<lparr>cred_id = ''id-'' @ site, siteId = site, serviceType = stype,
      loginUrl = (if stype = ''web_login'' then Some ''https://test.com/login'' else None),
      selectors = (if stype = ''web_login''
                   then Some \<lparr>sel_email = ''#email'', sel_password = ''#password'', sel_submit = ''#submit''\<rparr>
                   else None),
      active = act, createdAt = ''2026-01-01T00:00:00.000Z'',
      updatedAt = ''2026-01-01T00:00:00.000Z'', encryptedData = enc\<rparr>"

definition demo_store :: "StoredCredential list \<Rightarrow> EncryptedStore" where
  "demo_store cs =
     \<lparr>credentials = cs, credentialsFile = ''/data/credentials.json'', dataDir = Some ''/data''\<rparr>"

definition demo_key :: string where
  "demo_key = ''integration-test-keyvault-mcp-sa''"

definition demo_world_cached :: world where
  "demo_world_cached =
     demo_world\<lparr>cachedKey := Some demo_key, cachedKeySource := Some ''integration-test-key''\<rparr>"

definition demo_uuid :: string where "demo_uuid = ''3f1c2a90-0000-4000-8000-000000000001''"
definition demo_now :: string where "demo_now = ''2026-01-01T00:00:00.000Z''"
definition demo_nk :: string where "demo_nk = replicate 32 (CHR ''n'')"
definition demo_sels :: selectors where
  "demo_sels = \<lparr>sel_email = ''#email'', sel_password = ''#password'', sel_submit = ''#submit''\<rparr>"
definition demo_old_cred :: StoredCredential where
  "demo_old_cred = demo_cred ''github'' ''web_login'' True (demo_iv @ ''O'' @ demo_tag demo_key)"

definition demo_logger :: AuditLogger where
  "demo_logger = \<lparr>auditFile = ''/data/audit.jsonl'', vaultDir = ''/data''\<rparr>"

text \<open>
  Three entries as three sequential \<open>log\<close> calls synthesise them, the world whose audit
  file holds given entries, an entry with its \<open>result\<close> member changed, and the
  replacement of one byte of the audit file.
\<close>

definition demo_e0 :: jobj where
  "demo_e0 = new_entry demo_platform [] ''credential.created'' ''test-site'' success None None
               ''2026-01-01T00:00:00.000Z''"

definition demo_e1 :: jobj where
  "demo_e1 = new_entry demo_platform [demo_e0] ''credential.used'' ''test-site'' success
               (Some ''claude'') None ''2026-01-01T00:00:01.000Z''"

definition demo_e2 :: jobj where
  "demo_e2 = new_entry demo_platform [demo_e0, demo_e1] ''credential.removed'' ''test-site'' success
               None None ''2026-01-01T00:00:02.000Z''"

definition audit_world :: "jobj list \<Rightarrow> world" where
  "audit_world es =
     demo_world\<lparr>files := (files demo_world)(auditFile demo_logger \<mapsto> file_of (map entry_line es))\<rparr>"

definition set_result :: "string \<Rightarrow> jobj \<Rightarrow> jobj" where
  "set_result r e = map (\<lambda>kv. if fst kv = ''result'' then (fst kv, r) else kv) e"

definition tamper_byte :: "AuditLogger \<Rightarrow> nat \<Rightarrow> char \<Rightarrow> world \<Rightarrow> world" where
  "tamper_byte lg pos c w =
     (case files w (auditFile lg) of
        None \<Rightarrow> w
      | Some content \<Rightarrow> w\<lparr>files := (files w)(auditFile lg \<mapsto> content[pos := c])\<rparr>)"

definition demo_requests :: "append_request list" where
  "demo_requests =
     [\<lparr>rq_action = ''credential.created'', rq_credentialId = ''test-site'', rq_result = success,
       rq_botId = None, rq_details = None, rq_now = ''2026-01-01T00:00:00.000Z''\<rparr>,
      \<lparr>rq_action = ''credential.used'', rq_credentialId = ''test-site'', rq_result = success,
       rq_botId = Some ''claude'', rq_details = None, rq_now = ''2026-01-01T00:00:01.000Z''\<rparr>,
      \<lparr>rq_action = ''credential.removed'', rq_credentialId = ''test-site'', rq_result = success,
       rq_botId = None, rq_details = None, rq_now = ''2026-01-01T00:00:02.000Z''\<rparr>]"

text \<open>Stores, an adapter and a \<open>fetch\<close> for the examples of the tools.\<close>

definition demo_api_store :: EncryptedStore where
  "demo_api_store = demo_store [demo_cred ''stripe'' ''api_key'' True (demo_iv @ ''A'' @ demo_tag demo_key)]"

definition demo_inactive_store :: EncryptedStore where
  "demo_inactive_store =
     demo_store [demo_cred ''inactive-site'' ''web_login'' False (demo_iv @ ''S'' @ demo_tag demo_key)]"

definition demo_wrongkey_store :: EncryptedStore where
  "demo_wrongkey_store =
     demo_store [demo_cred ''inactive-site'' ''web_login'' False
                   (demo_iv @ ''S'' @ demo_tag ''test-master-key-123vault-mcp-salt'')]"

definition demo_bridge :: "LoginRecipe \<Rightarrow> string \<Rightarrow> string \<Rightarrow> LoginResult" where
  "demo_bridge recipe email password =
     \<lparr>lres_success = False, lres_pageTitle = [], lres_currentUrl = [],
      lres_message = ''Cannot connect to Chrome. Start Chrome with --remote-debugging-port=9222''\<rparr>"

definition demo_fetch :: "string \<Rightarrow> fetch_options \<Rightarrow> string + (nat \<times> string)" where
  "demo_fetch url opts = Inr (200, ''ok'')"

definition demo_err_text :: "error \<Rightarrow> string" where
  "demo_err_text e = ''error''"

text \<open>A form submission that names the site \<open>__timeout__\<close>, and the gateway it meets.\<close>

definition demo_token :: string where
  "demo_token = ''7d4f3c8e-0000-4000-8000-00000000000a''"

definition demo_post :: post_body where
  "demo_post =
     \<lparr>pb_siteId = ''__timeout__'', pb_serviceType = ''web_login'',
      pb_email = Some ''user@test.com'', pb_password = Some ''P@ssw0rd!'', pb_apiKey = None,
      pb_loginUrl = Some ''https://test.com/login'', pb_selectors = Some demo_sels,
      pb_headerName = None, pb_headerPrefix = None, pb_token = Some demo_token\<rparr>"

definition demo_gateway :: gateway where
  "demo_gateway = snd (snd (vaultAdd_begin (\<lambda>s. s) demo_token None None new_gateway))"

text \<open>A world whose audit file holds a line that is not JSON.\<close>

definition unreadable_audit_world :: world where
  "unreadable_audit_world =
     demo_world\<lparr>files := (files demo_world)(auditFile demo_logger \<mapsto> ''x'' @ [CHR 0x0A])\<rparr>"

section \<open>Keychain: the key cache\<close>

lemma getMasterKey_caches:
  "getMasterKey P dd n w = (k, w1) \<Longrightarrow>
     cachedKey w1 = Some k \<and>
     cachedKeySource w1 = Some (key_source (env_VAULT_MASTER_KEY w) dd) \<and>
     env_VAULT_MASTER_KEY w1 = env_VAULT_MASTER_KEY w"
  by (auto simp: getMasterKey_def cache_hit_def resolveMasterKey_def Let_def writeFile_def
      split: if_splits option.splits)

lemma key_source_env: "truthy e \<Longrightarrow> key_source e a = key_source e b"
  by (auto simp: key_source_def truthy_def or_else_def split: option.splits)

text \<open>
  The three resolution steps, in the order of the code: a set (non-empty) environment key
  is run through scrypt with the fixed salt; otherwise a key file of exactly 32 bytes is
  used verbatim; otherwise the fresh key is written to the key file and used.
\<close>

lemma resolveMasterKey_order:
  "fst (resolveMasterKey P dd newKey w) =
     (if truthy (env_VAULT_MASTER_KEY w)
      then scryptSync P (the (env_VAULT_MASTER_KEY w)) ''vault-mcp-salt'' 32
      else case files w (path_join P (getVaultDir P dd) ''.master-key'') of
             None \<Rightarrow> newKey
           | Some c \<Rightarrow> if length c = 32 then c else newKey)"
  by (simp add: resolveMasterKey_def Let_def readFile_def SCRYPT_SALT_def KEY_LENGTH_def
      split: option.splits)

text \<open>
  Claim C6, as the code has it. The cache is keyed by the single string
  \<open>envKey || dataDir || 'default'\<close>. After a call \<open>getMasterKey P dd1\<close> in world
  \<open>w\<close>, consider a later call in a world \<open>w2\<close> that still holds the cache the first call
  left (files may have changed):
  \<^item> with the same environment key and the same data directory it returns the first call's
    key and changes nothing: the resolution is not evaluated again;
  \<^item> so does a call under the same set environment key with any data directory;
  \<^item> a call whose fingerprint differs from the first call's does not use the cache: it is
    the fresh resolution (which also replaces the cache).
\<close>

theorem getMasterKey_memoized:
  assumes "getMasterKey P dd1 n1 w = (k1, w1)"
    and "cachedKey w2 = cachedKey w1" and "cachedKeySource w2 = cachedKeySource w1"
  shows "(env_VAULT_MASTER_KEY w2 = env_VAULT_MASTER_KEY w \<and> dd2 = dd1
            \<longrightarrow> getMasterKey P dd2 n2 w2 = (k1, w2)) \<and>
         (truthy (env_VAULT_MASTER_KEY w) \<and> env_VAULT_MASTER_KEY w2 = env_VAULT_MASTER_KEY w
            \<longrightarrow> getMasterKey P dd2 n2 w2 = (k1, w2)) \<and>
         (key_source (env_VAULT_MASTER_KEY w2) dd2 \<noteq> key_source (env_VAULT_MASTER_KEY w) dd1
            \<longrightarrow> getMasterKey P dd2 n2 w2 = resolveMasterKey P dd2 n2 w2)"
proof -
  from getMasterKey_caches[OF assms(1)] assms(2,3)
  have c: "cachedKey w2 = Some k1"
    and s: "cachedKeySource w2 = Some (key_source (env_VAULT_MASTER_KEY w) dd1)"
    by simp_all
  show ?thesis
    using c s key_source_env[of "env_VAULT_MASTER_KEY w" dd2 dd1]
    by (auto simp: getMasterKey_def cache_hit_def)
qed

lemma demo_first_call:
  "getMasterKey demo_platform (Some ''/a'') (replicate 32 (CHR ''n'')) demo_world =
     (demo_key, demo_world_cached)"
  by (simp add: getMasterKey_def cache_hit_def resolveMasterKey_def demo_world_def
      demo_world_cached_def demo_key_def demo_platform_def truthy_def key_source_def
      or_else_def SCRYPT_SALT_def KEY_LENGTH_def Let_def)

theorem getMasterKey_memoized_witness:
  "getMasterKey demo_platform (Some ''/a'') (replicate 32 (CHR ''n'')) demo_world =
     (demo_key, demo_world_cached) \<and>
   getMasterKey demo_platform (Some ''/a'') (replicate 32 (CHR ''m'')) demo_world_cached =
     (demo_key, demo_world_cached) \<and>
   getMasterKey demo_platform (Some ''/a'') (replicate 32 (CHR ''m''))
       (demo_world_cached\<lparr>env_VAULT_MASTER_KEY := Some ''wrong-key-456''\<rparr>) =
     resolveMasterKey demo_platform (Some ''/a'') (replicate 32 (CHR ''m''))
       (demo_world_cached\<lparr>env_VAULT_MASTER_KEY := Some ''wrong-key-456''\<rparr>)"
  using demo_first_call
    getMasterKey_memoized[OF demo_first_call, of demo_world_cached "Some ''/a''"
      "replicate 32 (CHR ''m'')"]
    getMasterKey_memoized[OF demo_first_call,
      of "demo_world_cached\<lparr>env_VAULT_MASTER_KEY := Some ''wrong-key-456''\<rparr>" "Some ''/a''"
      "replicate 32 (CHR ''m'')"]
  by (simp add: demo_world_def demo_world_cached_def key_source_def or_else_def)

text \<open>
  Claim C6 as stated fails: under the same environment key, a second call with a different
  data directory (the pairs differ in their second component) is served from the cache
  the first call filled.
\<close>

theorem getMasterKey_reuse_counterexample:
  "(Some ''integration-test-key'', Some ''/a'') \<noteq> (Some ''integration-test-key'', Some ''/b'') \<and>
   env_VAULT_MASTER_KEY demo_world = Some ''integration-test-key'' \<and>
   getMasterKey demo_platform (Some ''/a'') (replicate 32 (CHR ''n'')) demo_world =
     (demo_key, demo_world_cached) \<and>
   cache_hit (Some ''/b'') demo_world_cached \<and>
   getMasterKey demo_platform (Some ''/b'') (replicate 32 (CHR ''m'')) demo_world_cached =
     (demo_key, demo_world_cached)"
  using demo_first_call
  by (simp add: getMasterKey_def cache_hit_def demo_world_def demo_world_cached_def
      key_source_def or_else_def)

section \<open>Store: absent identifiers\<close>

lemma findIndex_absent: "site \<notin> set (map siteId cs) \<Longrightarrow> findIndex (\<lambda>c. siteId c = site) cs = None"
  by (induction cs) auto

text \<open>
  Claim C10. For a site identifier that no stored credential carries, \<open>removeCredential\<close>
  and \<open>toggleActive\<close> return false and hand back the store object and the world as they
  were: the credential vector is the same, no file changed, and the write log (hence the
  credentials file) received nothing.
\<close>

theorem remove_toggle_absent:
  "site \<notin> set (map siteId (credentials st)) \<Longrightarrow>
     removeCredential P st w site = (False, st, w) \<and>
     toggleActive P st w site act now = (False, st, w)"
  by (simp add: removeCredential_def toggleActive_def findIndex_absent)

theorem remove_toggle_absent_witness:
  "''nonexistent'' \<notin> set (map siteId (credentials (demo_store [demo_cred ''site2'' ''api_key'' True ''x'']))) \<and>
   removeCredential demo_platform (demo_store [demo_cred ''site2'' ''api_key'' True ''x'']) demo_world
       ''nonexistent'' =
     (False, demo_store [demo_cred ''site2'' ''api_key'' True ''x''], demo_world) \<and>
   toggleActive demo_platform (demo_store [demo_cred ''site2'' ''api_key'' True ''x'']) demo_world
       ''nonexistent'' False ''2026-01-02T00:00:00.000Z'' =
     (False, demo_store [demo_cred ''site2'' ''api_key'' True ''x''], demo_world)"
  using remove_toggle_absent[of "''nonexistent''" "demo_store [demo_cred ''site2'' ''api_key'' True ''x'']"
      demo_platform demo_world False "''2026-01-02T00:00:00.000Z''"]
  by (simp add: demo_store_def demo_cred_def)

section \<open>Store: round trips\<close>

lemma subarray_parts:
  assumes "length iv = 16" and "length tag = 16"
  shows "subarray (iv @ ct @ tag) 0 16 = iv"
    and "subarray (iv @ ct @ tag) (int (length (iv @ ct @ tag)) - 16) (int (length (iv @ ct @ tag))) = tag"
    and "subarray (iv @ ct @ tag) 16 (int (length (iv @ ct @ tag)) - 16) = ct"
  using assms by (simp_all add: subarray_def clamp_index_def Let_def)

lemma getMasterKey_again:
  assumes "getMasterKey P dd n w = (k, w1)"
    and "cachedKey w2 = cachedKey w1" and "cachedKeySource w2 = cachedKeySource w1"
    and "env_VAULT_MASTER_KEY w2 = env_VAULT_MASTER_KEY w"
  shows "getMasterKey P dd n2 w2 = (k, w2)"
  using getMasterKey_caches[OF assms(1)] assms(2-)
  by (simp add: getMasterKey_def cache_hit_def)

lemma decrypt_encrypt:
  assumes "gcm_correct P" and "base64_correct P" and "json_roundtrip P p"
    and "length iv = IV_LENGTH"
    and "encrypt P p dd iv n w = (enc, w1)"
    and "cachedKey w2 = cachedKey w1" and "cachedKeySource w2 = cachedKeySource w1"
    and "env_VAULT_MASTER_KEY w2 = env_VAULT_MASTER_KEY w1"
  shows "decrypt P enc dd n2 w2 = (Inr p, w2)"
proof -
  obtain k where k: "getMasterKey P dd n w = (k, w1)"
    using assms(5) by (auto simp: encrypt_def Let_def split: prod.splits)
  obtain ct tag where g: "gcm_encrypt P k iv (payload_stringify P p) = (ct, tag)"
    by (cases "gcm_encrypt P k iv (payload_stringify P p)")
  have enc: "enc = base64_encode P (iv @ ct @ tag)"
    using assms(5) k g by (simp add: encrypt_def Let_def)
  have tag: "length tag = 16" and dec: "gcm_decrypt P k iv ct tag = Some (payload_stringify P p)"
    using assms(1) g unfolding gcm_correct_def AUTH_TAG_LENGTH_def
    by (metis (mono_tags, lifting) case_prod_conv)+
  have buf: "base64_decode P enc = iv @ ct @ tag"
    using assms(2) enc by (simp add: base64_correct_def)
  have "env_VAULT_MASTER_KEY w2 = env_VAULT_MASTER_KEY w"
    using getMasterKey_caches[OF k] assms(8) by simp
  then have k2: "getMasterKey P dd n2 w2 = (k, w2)"
    by (rule getMasterKey_again[OF k assms(6,7)])
  have iv: "length iv = 16" using assms(4) by (simp add: IV_LENGTH_def)
  show ?thesis
    using subarray_parts[OF iv tag, of ct] dec assms(3)
    unfolding decrypt_def k2 buf
    by (simp add: Let_def IV_LENGTH_def AUTH_TAG_LENGTH_def json_roundtrip_def)
qed

lemma find_append_absent:
  "x \<notin> set (map siteId cs) \<Longrightarrow> find (\<lambda>c. siteId c = x) (cs @ [s]) = (if siteId s = x then Some s else None)"
  by (induction cs) auto

lemma findIndex_append_absent:
  "x \<notin> set (map siteId cs) \<Longrightarrow> findIndex (\<lambda>c. siteId c = x) (cs @ [s]) = (if siteId s = x then Some (length cs) else None)"
  by (induction cs) auto

text \<open>
  Claim C7, as the code has it. \<open>getCredential\<close> returns the first credential
  with the site identifier and \<open>addCredential\<close> appends without looking for
  duplicates, so the round trip holds for a site identifier the store does not hold yet:
  then \<open>add\<close> followed by \<open>get\<close> yields the metadata \<open>add\<close> returned and
  the payload, and \<open>add\<close>, \<open>remove\<close>, \<open>get\<close> yields none (the vector is back to
  what it was). The master key is fixed because the world is threaded through: the second
  call finds the key the first one cached. The hypotheses on the platform are the
  correctness of the library's cipher, base64 and JSON.
\<close>

theorem add_get_remove:
  assumes "gcm_correct P" and "base64_correct P" and "json_roundtrip P p"
    and "length iv = IV_LENGTH"
    and "x \<notin> set (map siteId (credentials st))"
    and "addCredential P st w x t p url sels uuid now iv nk = (m, st1, w1)"
  shows "fst (getCredential P st1 w1 x nk1) = Inr (Some (m, p)) \<and>
         (case removeCredential P st1 w1 x of
            (removed, st2, w2) \<Rightarrow>
              removed \<and> credentials st2 = credentials st \<and>
              fst (getCredential P st2 w2 x nk2) = Inr None)"
proof -
  obtain enc w' where e: "encrypt P p (dataDir st) iv nk w = (enc, w')"
    by (cases "encrypt P p (dataDir st) iv nk w")
  define stored where "stored = \<lparr>cred_id = uuid, siteId = x, serviceType = t, loginUrl = url,
         selectors = sels, active = True, createdAt = now, updatedAt = now, encryptedData = enc\<rparr>"
  have st1: "st1 = st\<lparr>credentials := credentials st @ [stored]\<rparr>"
    and w1: "w1 = save P st1 w'" and m: "m = toMetadata stored"
    using assms(6) e by (auto simp: addCredential_def Let_def stored_def)
  have f: "find (\<lambda>c. siteId c = x) (credentials st1) = Some stored"
    using assms(5) by (simp add: st1 find_append_absent stored_def)
  have d: "decrypt P enc (dataDir st1) nk1 w1 = (Inr p, w1)"
    using decrypt_encrypt[OF assms(1-4) e, of w1 nk1]
    by (simp add: w1 save_def writeFile_def st1)
  have get: "fst (getCredential P st1 w1 x nk1) = Inr (Some (m, p))"
    using f d by (simp add: getCredential_def m stored_def)
  have fi: "findIndex (\<lambda>c. siteId c = x) (credentials st1) = Some (length (credentials st))"
    using assms(5) by (simp add: st1 findIndex_append_absent stored_def)
  have none: "find (\<lambda>c. siteId c = x) (credentials st) = None"
    using assms(5) by (induction "credentials st") (auto simp: find_None_iff)
  show ?thesis
    using get fi none
    by (simp add: removeCredential_def Let_def st1 getCredential_def)
qed

lemma demo_gcm_correct: "gcm_correct demo_platform"
  by (auto simp: gcm_correct_def demo_platform_def demo_tag_def AUTH_TAG_LENGTH_def)

lemma demo_base64_correct: "base64_correct demo_platform"
  by (simp add: base64_correct_def demo_platform_def)

lemma demo_json_roundtrip: "json_roundtrip demo_platform demo_web_payload"
  by (simp add: json_roundtrip_def demo_platform_def demo_web_payload_def demo_old_payload_def)

lemmas demo_defs = demo_platform_def demo_world_def demo_store_def demo_cred_def demo_iv_def
  demo_tag_def demo_key_def demo_uuid_def demo_now_def demo_nk_def demo_sels_def
  demo_old_cred_def demo_web_payload_def demo_old_payload_def demo_api_payload_def
  demo_short_payload_def

lemmas store_defs = addCredential_def getCredential_def removeCredential_def toggleActive_def
  encrypt_def decrypt_def getMasterKey_def resolveMasterKey_def cache_hit_def key_source_def
  or_else_def truthy_def save_def writeFile_def readFile_def toMetadata_def subarray_def
  clamp_index_def SCRYPT_SALT_def KEY_LENGTH_def IV_LENGTH_def AUTH_TAG_LENGTH_def
  CredentialMetadata.truncate_def

theorem add_get_remove_witness:
  "gcm_correct demo_platform \<and> base64_correct demo_platform \<and>
   json_roundtrip demo_platform demo_web_payload \<and> length demo_iv = IV_LENGTH \<and>
   ''test-site'' \<notin> set (map siteId (credentials (demo_store []))) \<and>
   (case addCredential demo_platform (demo_store []) demo_world ''test-site'' ''web_login''
           demo_web_payload (Some ''https://test.com/login'') (Some demo_sels)
           demo_uuid demo_now demo_iv demo_nk of
      (m, st1, w1) \<Rightarrow>
        fst (getCredential demo_platform st1 w1 ''test-site'' demo_nk) = Inr (Some (m, demo_web_payload)) \<and>
        (case removeCredential demo_platform st1 w1 ''test-site'' of
           (removed, st2, w2) \<Rightarrow>
             removed \<and> credentials st2 = credentials (demo_store []) \<and>
             fst (getCredential demo_platform st2 w2 ''test-site'' demo_nk) = Inr None))"
proof -
  obtain m st1 w1 where a: "addCredential demo_platform (demo_store []) demo_world ''test-site''
      ''web_login'' demo_web_payload (Some ''https://test.com/login'') (Some demo_sels)
      demo_uuid demo_now demo_iv demo_nk = (m, st1, w1)"
    by (metis prod_cases3)
  have iv: "length demo_iv = IV_LENGTH" by (simp add: demo_iv_def IV_LENGTH_def)
  have x: "''test-site'' \<notin> set (map siteId (credentials (demo_store [])))"
    by (simp add: demo_store_def)
  show ?thesis
    using add_get_remove[OF demo_gcm_correct demo_base64_correct demo_json_roundtrip iv x a,
        of demo_nk demo_nk]
      demo_gcm_correct demo_base64_correct demo_json_roundtrip iv x
    by (simp add: a)
qed

text \<open>
  Claim C7 as stated (for every site identifier) fails on a store that already holds the
  identifier: \<open>get\<close> after \<open>add\<close> returns the older credential's payload, and
  after \<open>remove\<close> (which erases the older one) \<open>get\<close> returns the newly added
  credential, not none.
\<close>

theorem add_get_duplicate_counterexample:
  "(case addCredential demo_platform (demo_store [demo_old_cred]) demo_world ''github'' ''web_login''
           demo_web_payload (Some ''https://test.com/login'') (Some demo_sels)
           demo_uuid demo_now demo_iv demo_nk of
      (m, st1, w1) \<Rightarrow>
        fst (getCredential demo_platform st1 w1 ''github'' demo_nk) =
          Inr (Some (toMetadata demo_old_cred, demo_old_payload)) \<and>
        demo_old_payload \<noteq> demo_web_payload \<and>
        (case removeCredential demo_platform st1 w1 ''github'' of
           (removed, st2, w2) \<Rightarrow>
             fst (getCredential demo_platform st2 w2 ''github'' demo_nk) =
               Inr (Some (m, demo_web_payload))))"
  by (simp add: store_defs demo_defs Let_def)

section \<open>JSON: parsing what was serialised\<close>

lemma hex_val_hex_digit: "d < 16 \<Longrightarrow> hex_val (hex_digit d) = Some d"
  by (auto simp: hex_val_def hex_digit_def Let_def)

lemma hex_val_zero: "hex_val (CHR ''0'') = Some 0"
  by (simp add: hex_val_def)

lemma cons_char_simps [simp]:
  "cons_char c (Parsed (s, rest)) = Parsed (c # s, rest)"
  "cons_char c Rejected = Rejected"
  "cons_char c Unmodelled = Unmodelled"
  by (simp_all add: cons_char_def)

lemma parse_escape_char:
  "parse_string_body (escape_char c @ t) = cons_char c (parse_string_body t)"
proof -
  have ctl: "parse_string_body ([CHR 0x5C, CHR ''u'', CHR ''0'', CHR ''0'',
              hex_digit (of_char c div 16), hex_digit (of_char c mod 16)] @ t)
            = cons_char c (parse_string_body t)" if "(of_char c :: nat) < 32"
  proof -
    have a: "hex_val (hex_digit (of_char c div 16)) = Some (of_char c div 16)"
      using that by (intro hex_val_hex_digit) simp
    have b: "hex_val (hex_digit (of_char c mod 16)) = Some (of_char c mod 16)"
      by (intro hex_val_hex_digit) simp
    have n: "(of_char c :: nat) div 16 * 16 + of_char c mod 16 = of_char c" by simp
    show ?thesis using that
      by (simp add: a b hex_val_zero n)
  qed
  show ?thesis
  proof (cases "escape_char c = [CHR 0x5C, CHR ''u'', CHR ''0'', CHR ''0'',
              hex_digit (of_char c div 16), hex_digit (of_char c mod 16)]")
    case True
    then have "(of_char c :: nat) < 32"
      by (auto simp: escape_char_def split: if_splits)
    with True ctl show ?thesis by (simp del: parse_string_body.simps)
  next
    case False
    then show ?thesis
      unfolding escape_char_def
      by (auto simp: unescape_def split: if_splits)
  qed
qed

lemma parse_quoted:
  "parse_string_body (concat (map escape_char s) @ CHR 0x22 # rest) = Parsed (s, rest)"
  by (induction s) (simp_all add: parse_escape_char del: parse_string_body.simps add: parse_string_body.simps(2)[of "CHR 0x22"])

lemma skip_ws_nonws [simp]: "\<not> is_json_ws c \<Longrightarrow> skip_ws (c # r) = c # r"
  by (simp add: skip_ws_def)

lemma skip_ws_Nil [simp]: "skip_ws [] = []"
  by (simp add: skip_ws_def)

lemma json_ws_punct [simp]:
  "\<not> is_json_ws (CHR 0x22)" "\<not> is_json_ws (CHR '':'')" "\<not> is_json_ws (CHR '','')"
  "\<not> is_json_ws (CHR ''}'')" "\<not> is_json_ws (CHR ''{'')"
  by (simp_all add: is_json_ws_def)

lemma parse_member_last:
  "parse_members (member_text (k, v) @ ''}'') = Parsed [(k, v)]"
  by (subst parse_members.simps)
     (simp add: member_text_def quote_def parse_quoted del: parse_string_body.simps)

lemma parse_member_more:
  "parse_members (member_text (k, v) @ '','' @ t) =
     (case parse_members t of Parsed kvs \<Rightarrow> Parsed ((k, v) # kvs)
      | Rejected \<Rightarrow> Rejected | Unmodelled \<Rightarrow> Unmodelled)"
  by (subst parse_members.simps)
     (simp add: member_text_def quote_def parse_quoted del: parse_string_body.simps)

lemma parse_members_join:
  "kvs \<noteq> [] \<Longrightarrow> parse_members (join '','' (map member_text kvs) @ ''}'') = Parsed kvs"
proof (induction kvs rule: induct_list012)
  case 1
  then show ?case by simp
next
  case (2 kv)
  then show ?case using parse_member_last[of "fst kv" "snd kv"] by simp
next
  case (3 kv kv' kvs)
  then show ?case using parse_member_more[of "fst kv" "snd kv"] by simp
qed

lemma stringify_obj:
  "JSON_stringify (obj_json e) = ''{'' @ join '','' (map member_text e) @ ''}''"
proof -
  have "(\<lambda>x. quote (fst x) @ CHR '':'' # quote (snd x)) = member_text"
    by (rule ext) (simp add: member_text_def)
  then show ?thesis by (simp add: obj_json_def comp_def)
qed

lemma build_object_distinct_aux:
  "distinct (map fst (acc @ kvs)) \<Longrightarrow>
     fold (\<lambda>kv obj. AList.update (fst kv) (snd kv) obj) kvs acc = acc @ kvs"
proof (induction kvs arbitrary: acc)
  case Nil
  then show ?case by simp
next
  case (Cons kv kvs)
  have "AList.update (fst kv) (snd kv) acc = acc @ [kv]"
    using Cons.prems by (induction acc) auto
  with Cons.IH[of "acc @ [kv]"] Cons.prems show ?case by simp
qed

lemma build_object_distinct: "distinct (map fst kvs) \<Longrightarrow> build_object kvs = kvs"
  using build_object_distinct_aux[of "[]" kvs] by (simp add: build_object_def)

lemma member_text_hd: "member_text kv = CHR 0x22 # tl (member_text kv)"
  by (simp add: member_text_def quote_def)

lemma JSON_parse_stringify:
  assumes "distinct (map fst e)" and "\<not> list_ex is_index_key (map fst e)"
  shows "JSON_parse (JSON_stringify (obj_json e)) = Parsed e"
proof (cases e)
  case Nil
  then show ?thesis by (simp add: stringify_obj JSON_parse_def)
next
  case (Cons kv kvs)
  then obtain t where t: "join '','' (map member_text e) @ ''}'' = CHR 0x22 # t"
    by (cases kvs) (simp_all add: member_text_def quote_def)
  have "parse_members (join '','' (map member_text e) @ ''}'') = Parsed e"
    using Cons by (intro parse_members_join) simp
  then show ?thesis
    using assms t by (simp add: stringify_obj JSON_parse_def build_object_distinct)
qed

lemma JSON_parse_entry_line: "wf_entry e \<Longrightarrow> JSON_parse (entry_line e) = Parsed e"
  by (simp add: wf_entry_def entry_line_def JSON_parse_stringify)

subsection \<open>Lines of the log file\<close>

lemma hex_digit_printable: "d < 16 \<Longrightarrow> 32 \<le> (of_char (hex_digit d) :: nat)"
  by (auto simp: hex_digit_def)

lemma escape_char_printable: "x \<in> set (escape_char c) \<Longrightarrow> 32 \<le> (of_char x :: nat)"
proof -
  have "(of_char c :: nat) div 16 < 16"
    by (rule less_mult_imp_div_less) simp
  moreover have "(of_char c :: nat) mod 16 < 16"
    by simp
  ultimately show "x \<in> set (escape_char c) \<Longrightarrow> 32 \<le> (of_char x :: nat)"
    using hex_digit_printable[of "of_char c div 16"] hex_digit_printable[of "of_char c mod 16"]
    by (auto simp: escape_char_def split: if_splits)
qed

lemma quote_printable: "x \<in> set (quote s) \<Longrightarrow> 32 \<le> (of_char x :: nat)"
  by (auto simp: quote_def dest: escape_char_printable)

lemma member_text_printable: "x \<in> set (member_text kv) \<Longrightarrow> 32 \<le> (of_char x :: nat)"
  by (auto simp: member_text_def dest: quote_printable)

lemma join_printable:
  "(\<And>l x. l \<in> set ls \<Longrightarrow> x \<in> set l \<Longrightarrow> 32 \<le> (of_char x :: nat)) \<Longrightarrow>
   x \<in> set (join '','' ls) \<Longrightarrow> 32 \<le> (of_char x :: nat)"
  by (induction ls rule: induct_list012) auto

lemma entry_line_printable: "x \<in> set (entry_line e) \<Longrightarrow> 32 \<le> (of_char x :: nat)"
proof -
  assume "x \<in> set (entry_line e)"
  then have "x = CHR ''{'' \<or> x = CHR ''}'' \<or> x \<in> set (join '','' (map member_text e))"
    by (auto simp: entry_line_def stringify_obj)
  moreover have "x \<in> set (join '','' (map member_text e)) \<Longrightarrow> 32 \<le> (of_char x :: nat)"
    by (rule join_printable[of "map member_text e"]) (auto dest: member_text_printable)
  ultimately show ?thesis by auto
qed

lemma entry_line_solid: "solid (entry_line e)"
proof -
  have "CHR 0x0A \<notin> set (entry_line e)"
    using entry_line_printable[of "CHR 0x0A" e] by auto
  moreover have "hd (entry_line e) = CHR ''{''" "last (entry_line e) = CHR ''}''" "entry_line e \<noteq> []"
    by (simp_all add: entry_line_def stringify_obj)
  ultimately show ?thesis by (simp add: solid_def plain_def)
qed

lemma split_lines_no_lf: "CHR 0x0A \<notin> set l \<Longrightarrow> split_lines l = [l]"
  by (induction l) auto

lemma split_lines_append:
  "CHR 0x0A \<notin> set l \<Longrightarrow> split_lines (l @ CHR 0x0A # rest) = l # split_lines rest"
  by (induction l) (auto split: list.splits)

lemma split_lines_join:
  "ls \<noteq> [] \<Longrightarrow> \<forall>l \<in> set ls. CHR 0x0A \<notin> set l \<Longrightarrow> split_lines (join [CHR 0x0A] ls) = ls"
proof (induction ls rule: induct_list012)
  case 1 then show ?case by simp
next
  case (2 l) then show ?case by (simp add: split_lines_no_lf)
next
  case (3 l l' ls)
  then show ?case by (simp add: split_lines_append del: split_lines.simps)
qed

lemma file_of_join: "ls \<noteq> [] \<Longrightarrow> file_of ls = join [CHR 0x0A] ls @ [CHR 0x0A]"
  by (induction ls rule: induct_list012) (simp_all add: file_of_def)

lemma join_hd_last:
  "ls \<noteq> [] \<Longrightarrow> \<forall>l \<in> set ls. l \<noteq> [] \<Longrightarrow>
     join [CHR 0x0A] ls \<noteq> [] \<and> hd (join [CHR 0x0A] ls) = hd (hd ls) \<and>
     last (join [CHR 0x0A] ls) = last (last ls)"
  by (induction ls rule: induct_list012) auto

lemma strip_front_none:
  "\<forall>ws \<in> set wss. ws = [] \<or> \<not> prefix ws s \<Longrightarrow> strip_front wss s = s"
proof -
  assume a: "\<forall>ws \<in> set wss. ws = [] \<or> \<not> prefix ws s"
  then have "find (\<lambda>ws. ws \<noteq> [] \<and> prefix ws s) wss = None"
    by (auto simp: find_None_iff)
  then show ?thesis by (subst strip_front.simps) simp
qed

lemma plain_no_prefix:
  "plain c \<Longrightarrow> \<forall>ws \<in> set js_white_space. ws = [] \<or> \<not> prefix ws (c # r)"
  by (auto simp: js_white_space_def plain_def)

lemma plain_no_suffix:
  "plain c \<Longrightarrow> \<forall>ws \<in> set (map rev js_white_space). ws = [] \<or> \<not> prefix ws (c # r)"
  by (auto simp: js_white_space_def plain_def)

lemma trimStart_plain: "plain c \<Longrightarrow> trimStart (c # r) = c # r"
  unfolding trimStart_def by (rule strip_front_none[OF plain_no_prefix])

lemma trimEnd_plain: "b \<noteq> [] \<Longrightarrow> plain (last b) \<Longrightarrow> trimEnd b = b"
proof -
  assume a: "b \<noteq> []" "plain (last b)"
  then obtain r where "rev b = last b # r" by (cases b rule: rev_cases) auto
  with a(2) show ?thesis
    unfolding trimEnd_def using strip_front_none[OF plain_no_suffix, of "last b" r] by (metis rev_rev_ident)
qed

lemma trimEnd_lf: "trimEnd (b @ [CHR 0x0A]) = trimEnd b"
  unfolding trimEnd_def
  by (subst strip_front.simps) (simp add: js_white_space_def)

lemma trim_empty: "trim [] = []"
  by (simp add: trim_def trimStart_def trimEnd_def strip_front_none)

lemma trim_solid:
  assumes "b \<noteq> []" and "plain (hd b)" and "plain (last b)"
  shows "trim (b @ [CHR 0x0A]) = b"
proof -
  from assms(1) obtain c r where b: "b = c # r" by (cases b) auto
  with assms(2) have "trimStart (b @ [CHR 0x0A]) = b @ [CHR 0x0A]"
    using trimStart_plain[of c "r @ [CHR 0x0A]"] by simp
  then show ?thesis
    by (simp add: trim_def trimEnd_lf trimEnd_plain[OF assms(1,3)])
qed

lemma trim_examples:
  "trim ([CHR 0xEF, CHR 0xBB, CHR 0xBF] @ ''{}'' @ [CHR 0x0A]) = ''{}''"
  "trim ([CHR 0x20, CHR 0xC2, CHR 0xA0] @ ''a b'' @ [CHR 0xE2, CHR 0x80, CHR 0xA8, CHR 0x0D, CHR 0x0A]) = ''a b''"
  by code_simp+

lemma lines_of_file:
  assumes "\<forall>l \<in> set ls. solid l"
  shows "filter (\<lambda>l. l \<noteq> []) (split_lines (trim (file_of ls))) = ls"
proof (cases "ls = []")
  case True
  then show ?thesis by (simp add: file_of_def trim_empty)
next
  case False
  have ne: "\<forall>l \<in> set ls. l \<noteq> []" and nl: "\<forall>l \<in> set ls. CHR 0x0A \<notin> set l"
    using assms by (auto simp: solid_def)
  from join_hd_last[OF False ne] assms False
  have "trim (file_of ls) = join [CHR 0x0A] ls"
    by (simp add: file_of_join trim_solid solid_def hd_in_set last_in_set del: join.simps)
  moreover have "filter (\<lambda>l. l \<noteq> []) ls = ls"
    using ne by (induction ls) auto
  ultimately show ?thesis
    by (simp add: split_lines_join[OF False nl])
qed

lemma parse_lines_entries:
  "list_all wf_entry es \<Longrightarrow> parse_lines (map entry_line es) = Inr es"
  by (induction es) (simp_all add: JSON_parse_entry_line)

lemma getEntries_on_file: "on_file lg w es \<Longrightarrow> getEntries lg None w = Inr es"
proof -
  assume a: "on_file lg w es"
  show ?thesis
  proof (cases "files w (auditFile lg)")
    case None
    with a show ?thesis by (auto simp: on_file_def getEntries_def readFile_def)
  next
    case (Some content)
    with a have c: "content = file_of (map entry_line es)" and wf: "list_all wf_entry es"
      by (auto simp: on_file_def)
    have "filter (\<lambda>l. l \<noteq> []) (split_lines (trim content)) = map entry_line es"
      unfolding c by (rule lines_of_file) (auto simp: entry_line_solid)
    then show ?thesis
      using Some wf by (simp add: getEntries_def readFile_def parse_lines_entries truthy_def)
  qed
qed

section \<open>Audit log: the chain under sequential appends\<close>

lemma index_key_names [simp]:
  "\<not> is_index_key ''eventId''" "\<not> is_index_key ''timestamp''" "\<not> is_index_key ''action''"
  "\<not> is_index_key ''credentialId''" "\<not> is_index_key ''result''" "\<not> is_index_key ''prevHash''"
  "\<not> is_index_key ''botId''" "\<not> is_index_key ''details''" "\<not> is_index_key ''hash''"
  by (simp_all add: is_index_key_def is_digit_def)

lemma new_entry_wf: "wf_entry (new_entry P es a c r b d n)"
  by (auto simp: wf_entry_def new_entry_def opt_field_def Let_def split: option.splits)

lemma new_entry_fields:
  "map_of (new_entry P es a c r b d n) ''prevHash'' =
     (if es \<noteq> [] then map_of (last es) ''hash'' else Some ''genesis'')"
  "map_of (new_entry P es a c r b d n) ''hash'' \<noteq> None"
  "map_of (new_entry P es a c r b d n) ''eventId'' = Some (formatEventId (length es + 1))"
  by (auto simp: new_entry_def opt_field_def Let_def split: option.splits)

lemma file_of_snoc: "file_of (ls @ [l]) = file_of ls @ l @ [CHR 0x0A]"
  by (simp add: file_of_def)

lemma log_on_file:
  assumes "on_file lg w es"
  shows "\<exists>w'. log P lg a c r b d n w = (Inr (new_entry P es a c r b d n), w') \<and>
              on_file lg w' (es @ [new_entry P es a c r b d n])"
proof -
  let ?e = "new_entry P es a c r b d n"
  let ?w' = "appendFile (auditFile lg) (entry_line ?e @ [CHR 0x0A]) w"
  have l: "log P lg a c r b d n w = (Inr ?e, ?w')"
    using getEntries_on_file[OF assms] by (simp add: log_def entry_line_def Let_def)
  have "on_file lg ?w' (es @ [?e])"
    using assms new_entry_wf[of P es a c r b d n]
    by (auto simp: on_file_def appendFile_def file_of_snoc file_of_def)
  with l show ?thesis by blast
qed

lemma chain_linked_snoc:
  assumes "chain_linked es"
  shows "chain_linked (es @ [new_entry P es a c r b d n])"
  unfolding chain_linked_def
proof (intro allI impI)
  fix i assume i: "i < length (es @ [new_entry P es a c r b d n])"
  let ?e = "new_entry P es a c r b d n"
  show "map_of ((es @ [?e]) ! i) ''prevHash'' =
          (if i = 0 then Some ''genesis'' else map_of ((es @ [?e]) ! (i - 1)) ''hash'') \<and>
        map_of ((es @ [?e]) ! i) ''hash'' \<noteq> None \<and>
        map_of ((es @ [?e]) ! i) ''eventId'' = Some (formatEventId (i + 1))"
  proof (cases "i < length es")
    case True
    then have "(es @ [?e]) ! i = es ! i" "(es @ [?e]) ! (i - 1) = es ! (i - 1)"
      by (auto simp: nth_append)
    with assms True show ?thesis by (auto simp: chain_linked_def)
  next
    case False
    with i have ii: "i = length es" by simp
    show ?thesis
    proof (cases "es = []")
      case True
      with ii show ?thesis using new_entry_fields[of P es a c r b d n] by simp
    next
      case False
      then have "last es = es ! (length es - 1)" by (simp add: last_conv_nth)
      with False ii show ?thesis
        using new_entry_fields[of P es a c r b d n] by (simp add: nth_append)
    qed
  qed
qed

lemma log_all_on_file:
  assumes "on_file lg w es" and "chain_linked es"
  shows "\<exists>new w'. log_all P lg rqs w = (Inr new, w') \<and> length new = length rqs \<and>
            on_file lg w' (es @ new) \<and> chain_linked (es @ new)"
  using assms
proof (induction rqs arbitrary: w es)
  case Nil
  then show ?case by simp
next
  case (Cons rq rqs)
  let ?e = "new_entry P es (rq_action rq) (rq_credentialId rq) (rq_result rq) (rq_botId rq)
             (rq_details rq) (rq_now rq)"
  from log_on_file[OF Cons.prems(1)] obtain w1 where
    l: "log P lg (rq_action rq) (rq_credentialId rq) (rq_result rq) (rq_botId rq)
             (rq_details rq) (rq_now rq) w = (Inr ?e, w1)"
    and o: "on_file lg w1 (es @ [?e])"
    by blast
  have c: "chain_linked (es @ [?e])"
    by (rule chain_linked_snoc[OF Cons.prems(2)])
  from Cons.IH[OF o c] obtain new w' where
    "log_all P lg rqs w1 = (Inr new, w')" "length new = length rqs"
    "on_file lg w' ((es @ [?e]) @ new)" "chain_linked ((es @ [?e]) @ new)"
    by blast
  with l show ?case by simp
qed

text \<open>Event identifiers: the index padded with zeros to three digits, longer ones as they are.\<close>

lemma formatEventId_examples:
  "formatEventId 1 = ''evt_001''" "formatEventId 42 = ''evt_042''" "formatEventId 1000 = ''evt_1000''"
  by code_simp+

lemma formatEventId_padded:
  "formatEventId n = ''evt_'' @ replicate (3 - length (string_of_nat n)) (CHR ''0'') @ string_of_nat n"
  by (simp add: formatEventId_def padStart_def)

text \<open>
  The text \<open>formatEventId\<close> returns is \<open>evt_\<close> followed by the zero-padded numeral
  of the specification, and that numeral is determined by the index.
\<close>

lemma digit_char_digit: "d < 10 \<Longrightarrow> is_digit (digit_char d) \<and> of_char (digit_char d) - 48 = d"
  by (simp add: digit_char_def is_digit_def)

lemma is_digit_value: "is_digit c \<Longrightarrow> (of_char c :: nat) - 48 < 10 \<and> 48 \<le> (of_char c :: nat)"
  unfolding is_digit_def by arith

lemma is_digit_zero: "is_digit c \<Longrightarrow> c \<noteq> CHR ''0'' \<Longrightarrow> 1 \<le> (of_char c :: nat) - 48"
proof -
  assume a: "is_digit c" "c \<noteq> CHR ''0''"
  have "(of_char c :: nat) \<noteq> of_char (CHR ''0'')" using a(2) by (simp only: of_char_eq_iff not_False_eq_True)
  then have "(of_char c :: nat) \<noteq> 48" by simp
  with is_digit_value[OF a(1)] show ?thesis by arith
qed

lemma digits_value_snoc: "digits_value (ds @ [c]) = 10 * digits_value ds + (of_char c - 48)"
  by (simp add: digits_value_def)

lemma string_of_nat_digits: "list_all is_digit (string_of_nat n)"
proof (induction n rule: string_of_nat.induct)
  case (1 n)
  then show ?case
    by (subst string_of_nat.simps) (simp add: digit_char_digit)
qed

lemma digits_value_string_of_nat: "digits_value (string_of_nat n) = n"
proof (induction n rule: string_of_nat.induct)
  case (1 n)
  show ?case
  proof (cases "n < 10")
    case True
    then show ?thesis
      by (subst string_of_nat.simps) (simp add: digits_value_def digit_char_digit)
  next
    case False
    with 1 have "digits_value (string_of_nat (n div 10)) = n div 10" by simp
    with False show ?thesis
      by (subst string_of_nat.simps) (simp add: digits_value_snoc digit_char_digit)
  qed
qed

lemma string_of_nat_length: "0 < length (string_of_nat n) \<and> (n < 10 \<longrightarrow> length (string_of_nat n) = 1)"
  by (subst (1 2) string_of_nat.simps) simp

lemma string_of_nat_hd: "0 < n \<Longrightarrow> hd (string_of_nat n) \<noteq> CHR ''0''"
proof (induction n rule: string_of_nat.induct)
  case (1 n)
  show ?case
  proof (cases "n < 10")
    case True
    have "of_char (digit_char n) = 48 + n" using True by (simp add: digit_char_def)
    with "1.prems" have "digit_char n \<noteq> CHR ''0''" by auto
    with True show ?thesis by (subst string_of_nat.simps) simp
  next
    case False
    then have "0 < n div 10" by simp
    with 1 False have "hd (string_of_nat (n div 10)) \<noteq> CHR ''0''" by simp
    moreover have "string_of_nat (n div 10) \<noteq> []" using string_of_nat_length[of "n div 10"] by auto
    ultimately show ?thesis using False by (subst string_of_nat.simps) simp
  qed
qed

lemma digits_value_zeros: "digits_value (replicate k (CHR ''0'') @ ds) = digits_value ds"
proof -
  have "foldl (\<lambda>a c. 10 * a + (of_char c - 48)) (0::nat) (replicate k (CHR ''0'')) = 0"
    by (induction k) simp_all
  then show ?thesis by (simp add: digits_value_def)
qed

lemma formatEventId_spec:
  "\<exists>ds. formatEventId n = ''evt_'' @ ds \<and> zero_padded3 n ds"
proof -
  let ?s = "string_of_nat n"
  let ?ds = "replicate (3 - length ?s) (CHR ''0'') @ ?s"
  have f: "formatEventId n = ''evt_'' @ ?ds" by (simp add: formatEventId_def padStart_def)
  have "list_all is_digit (replicate (3 - length ?s) (CHR ''0''))"
    by (simp add: list_all_iff is_digit_def)
  then have 1: "list_all is_digit ?ds" by (simp add: string_of_nat_digits)
  have 2: "digits_value ?ds = n" by (simp add: digits_value_zeros digits_value_string_of_nat)
  have 3: "3 \<le> length ?ds" by simp
  have 4: "length ?ds = 3 \<or> hd ?ds \<noteq> CHR ''0''"
  proof (cases "length ?s \<le> 3")
    case True then show ?thesis by simp
  next
    case False
    then have "\<not> n < 10" using string_of_nat_length[of n] by auto
    then have "hd ?s \<noteq> CHR ''0''" by (intro string_of_nat_hd) simp
    with False show ?thesis by simp
  qed
  show ?thesis unfolding zero_padded3_def f using 1 2 3 4 by blast
qed

lemma digits_bound: "list_all is_digit ds \<Longrightarrow> digits_value ds < 10 ^ length ds"
proof (induction ds rule: rev_induct)
  case Nil then show ?case by (simp add: digits_value_def)
next
  case (snoc c ds)
  then have "digits_value ds < 10 ^ length ds" and "(of_char c :: nat) - 48 < 10"
    using is_digit_value[of c] by simp_all
  then show ?case by (simp add: digits_value_snoc)
qed

lemma digits_lower:
  "ds \<noteq> [] \<Longrightarrow> list_all is_digit ds \<Longrightarrow> hd ds \<noteq> CHR ''0'' \<Longrightarrow> 10 ^ (length ds - 1) \<le> digits_value ds"
proof (induction ds rule: rev_induct)
  case Nil then show ?case by simp
next
  case (snoc c ds)
  show ?case
  proof (cases "ds = []")
    case True
    with snoc.prems have "c \<noteq> CHR ''0''" "is_digit c" by simp_all
    then have "1 \<le> (of_char c :: nat) - 48" by (intro is_digit_zero)
    with True show ?thesis by (simp add: digits_value_def)
  next
    case False
    with snoc have "10 ^ (length ds - 1) \<le> digits_value ds" by simp
    then have "10 * 10 ^ (length ds - 1) \<le> 10 * digits_value ds" by simp
    moreover have "10 * 10 ^ (length ds - 1) = (10::nat) ^ length ds"
      using False by (cases ds) simp_all
    ultimately show ?thesis by (simp add: digits_value_snoc)
  qed
qed

lemma digits_inj:
  "length ds = length ds' \<Longrightarrow> list_all is_digit ds \<Longrightarrow> list_all is_digit ds' \<Longrightarrow>
     digits_value ds = digits_value ds' \<Longrightarrow> ds = ds'"
proof (induction ds arbitrary: ds' rule: rev_induct)
  case Nil then show ?case by simp
next
  case (snoc c ds)
  from snoc.prems(1) obtain c' xs where d: "ds' = xs @ [c']" "length xs = length ds"
    by (cases ds' rule: rev_cases) auto
  from snoc.prems(2,3) d have dg: "is_digit c" "is_digit c'" "list_all is_digit ds" "list_all is_digit xs"
    by simp_all
  let ?x = "(of_char c :: nat) - 48" and ?y = "(of_char c' :: nat) - 48"
  have b: "?x < 10" "?y < 10" "48 \<le> (of_char c :: nat)" "48 \<le> (of_char c' :: nat)"
    using is_digit_value[OF dg(1)] is_digit_value[OF dg(2)] by simp_all
  from snoc.prems(4) have e: "10 * digits_value ds + ?x = 10 * digits_value xs + ?y"
    by (simp add: d digits_value_snoc)
  from e b have "digits_value ds = digits_value xs" "?x = ?y" by presburger+
  then have "ds = xs" and "(of_char c :: nat) = of_char c'"
    using snoc.IH[of xs] d dg b(3,4) by (simp, linarith)
  then show ?case by (simp add: d)
qed

lemma zero_padded3_unique:
  assumes "zero_padded3 n ds" and "zero_padded3 n ds'"
  shows "ds = ds'"
proof -
  have len: "length a = length b"
    if a: "zero_padded3 n a" and b: "zero_padded3 n b" and l: "length a \<noteq> 3" for a b
  proof -
    from a l have a': "list_all is_digit a" "digits_value a = n" "3 < length a" "hd a \<noteq> CHR ''0''"
      by (auto simp: zero_padded3_def)
    moreover from a'(3) have "a \<noteq> []" by auto
    ultimately have lo: "10 ^ (length a - 1) \<le> n" using digits_lower[of a] by simp
    have "(10::nat) ^ 3 \<le> 10 ^ (length a - 1)" using a'(3) by (intro power_increasing) simp_all
    with lo have big: "1000 \<le> n" by simp
    from b have b': "list_all is_digit b" "digits_value b = n" "3 \<le> length b"
      by (auto simp: zero_padded3_def)
    have "length b \<noteq> 3"
    proof
      assume "length b = 3"
      with digits_bound[OF b'(1)] b'(2) have "n < 1000" by simp
      with big show False by simp
    qed
    with b have b'': "hd b \<noteq> CHR ''0''" "b \<noteq> []" by (auto simp: zero_padded3_def)
    then have lo': "10 ^ (length b - 1) \<le> n" using digits_lower[of b] b' by auto
    have hi: "n < 10 ^ length a" "n < 10 ^ length b"
      using digits_bound[OF a'(1)] digits_bound[OF b'(1)] a'(2) b'(2) by simp_all
    have "\<not> length a < length b"
    proof
      assume "length a < length b"
      then have "(10::nat) ^ length a \<le> 10 ^ (length b - 1)" by (intro power_increasing) simp_all
      with lo' hi show False by linarith
    qed
    moreover have "\<not> length b < length a"
    proof
      assume "length b < length a"
      then have "(10::nat) ^ length b \<le> 10 ^ (length a - 1)" by (intro power_increasing) simp_all
      with lo hi show False by linarith
    qed
    ultimately show ?thesis by simp
  qed
  have "length ds = length ds'"
  proof (cases "length ds = 3")
    case False
    then show ?thesis by (rule len[OF assms])
  next
    case True
    show ?thesis
    proof (cases "length ds' = 3")
      case True
      with \<open>length ds = 3\<close> show ?thesis by simp
    next
      case False
      then show ?thesis using len[OF assms(2,1)] by simp
    qed
  qed
  then show ?thesis
    using assms by (intro digits_inj) (auto simp: zero_padded3_def)
qed

lemma zero_padded3_examples:
  "zero_padded3 1 ''001''" "zero_padded3 10 ''010''" "zero_padded3 12 ''012''"
  "zero_padded3 999 ''999''" "zero_padded3 1000 ''1000''"
  "\<not> zero_padded3 10 ''0010''" "\<not> zero_padded3 1 ''1''" "\<not> zero_padded3 10 ''10''"
  by (simp_all add: zero_padded3_def digits_value_def is_digit_def)

text \<open>
  Claim C4. Starting from an empty audit log (the file is missing or empty), any sequence
  of sequential \<open>log\<close> calls succeeds, and the entries then read back from the file
  are the entries the calls returned, one per call, with: \<open>prevHash\<close> of entry 0 the
  literal \<open>genesis\<close>; \<open>prevHash\<close> of every later entry the \<open>hash\<close> of the entry
  before it; and \<open>eventId\<close> of entry \<open>i\<close> the text \<open>evt_\<close> followed by the
  1-based index \<open>i + 1\<close> zero-padded to three digits: a string of decimal digits of
  value \<open>i + 1\<close>, exactly three digits long, or longer and without a leading zero.
\<close>

theorem log_all_chain:
  assumes "files w (auditFile lg) = None \<or> files w (auditFile lg) = Some []"
  shows "\<exists>w' es. log_all P lg rqs w = (Inr es, w') \<and>
           getEntries lg None w' = Inr es \<and> length es = length rqs \<and>
           (\<forall>i < length es.
              map_of (es ! i) ''prevHash'' =
                (if i = 0 then Some ''genesis'' else map_of (es ! (i - 1)) ''hash'') \<and>
              map_of (es ! i) ''hash'' \<noteq> None \<and>
              (\<exists>ds. map_of (es ! i) ''eventId'' = Some (''evt_'' @ ds) \<and> zero_padded3 (i + 1) ds))"
proof -
  have "on_file lg w []" using assms by (auto simp: on_file_def file_of_def)
  moreover have "chain_linked []" by (simp add: chain_linked_def)
  ultimately obtain new w' where n:
    "log_all P lg rqs w = (Inr new, w')" "length new = length rqs"
    "on_file lg w' new" "chain_linked new"
    using log_all_on_file[of lg w "[]" P rqs] by auto
  have "\<exists>ds. map_of (new ! i) ''eventId'' = Some (''evt_'' @ ds) \<and> zero_padded3 (i + 1) ds"
    if "i < length new" for i
    using n(4) that formatEventId_spec[of "i + 1"] by (auto simp: chain_linked_def)
  with n show ?thesis
    using getEntries_on_file[of lg w' new] by (auto simp: chain_linked_def)
qed

theorem log_all_chain_witness:
  "\<exists>w' es. log_all demo_platform demo_logger
              (demo_requests @ demo_requests @ demo_requests @ demo_requests) demo_world = (Inr es, w') \<and>
           getEntries demo_logger None w' = Inr es \<and> length es = 12 \<and>
           map_of (es ! 0) ''prevHash'' = Some ''genesis'' \<and>
           map_of (es ! 1) ''prevHash'' = map_of (es ! 0) ''hash'' \<and>
           map_of (es ! 11) ''prevHash'' = map_of (es ! 10) ''hash'' \<and>
           map_of (es ! 0) ''eventId'' = Some ''evt_001'' \<and>
           map_of (es ! 9) ''eventId'' = Some ''evt_010'' \<and>
           map_of (es ! 11) ''eventId'' = Some ''evt_012''"
proof -
  let ?rqs = "demo_requests @ demo_requests @ demo_requests @ demo_requests"
  have f: "files demo_world (auditFile demo_logger) = None \<or>
           files demo_world (auditFile demo_logger) = Some []"
    by (simp add: demo_world_def)
  have z: "zero_padded3 1 ''001''" "zero_padded3 10 ''010''" "zero_padded3 12 ''012''"
    by (simp_all add: zero_padded3_def digits_value_def is_digit_def)
  from log_all_chain[OF f, of demo_platform ?rqs] obtain w' es where
    a: "log_all demo_platform demo_logger ?rqs demo_world = (Inr es, w')"
       "getEntries demo_logger None w' = Inr es" "length es = length ?rqs"
    and c: "\<forall>i < length es.
              map_of (es ! i) ''prevHash'' =
                (if i = 0 then Some ''genesis'' else map_of (es ! (i - 1)) ''hash'') \<and>
              map_of (es ! i) ''hash'' \<noteq> None \<and>
              (\<exists>ds. map_of (es ! i) ''eventId'' = Some (''evt_'' @ ds) \<and> zero_padded3 (i + 1) ds)"
    by blast
  have l: "length es = 12" using a(3) by (simp add: demo_requests_def)
  then have i: "0 < length es" "1 < length es" "9 < length es" "11 < length es" by simp_all
  from c[rule_format, OF i(1)] obtain d0 where
    p0: "map_of (es ! 0) ''prevHash'' = Some ''genesis''"
    and d0: "map_of (es ! 0) ''eventId'' = Some (''evt_'' @ d0)" "zero_padded3 1 d0"
    by auto
  from c[rule_format, OF i(2)] have p1: "map_of (es ! 1) ''prevHash'' = map_of (es ! 0) ''hash''"
    by simp
  from c[rule_format, OF i(3)] obtain d9 where
    d9: "map_of (es ! 9) ''eventId'' = Some (''evt_'' @ d9)" "zero_padded3 10 d9"
    by auto
  from c[rule_format, OF i(4)] obtain d11 where
    p11: "map_of (es ! 11) ''prevHash'' = map_of (es ! 10) ''hash''"
    and d11: "map_of (es ! 11) ''eventId'' = Some (''evt_'' @ d11)" "zero_padded3 12 d11"
    by auto
  have "d0 = ''001''" "d9 = ''010''" "d11 = ''012''"
    using zero_padded3_unique[OF d0(2) z(1)] zero_padded3_unique[OF d9(2) z(2)]
      zero_padded3_unique[OF d11(2) z(3)] by simp_all
  with a(1,2) l p0 p1 p11 d0(1) d9(1) d11(1) show ?thesis by simp
qed

section \<open>Audit log: verifying the chain\<close>

lemma verify_from_None:
  "(\<And>k. j \<le> k \<Longrightarrow> k < length es \<Longrightarrow> entry_ok P es k) \<Longrightarrow> verify_from P es j = None"
proof (induction P es j rule: verify_from.induct)
  case (1 P entries i)
  show ?case
  proof (cases "i < length entries")
    case False
    then show ?thesis by (subst verify_from.simps) simp
  next
    case True
    with "1.prems"[of i] have ok: "entry_ok P entries i" by simp
    have "verify_from P entries (i + 1) = None"
      using "1.IH" True ok "1.prems" by (auto simp: entry_ok_def Let_def)
    with ok True show ?thesis
      by (subst verify_from.simps) (simp add: entry_ok_def Let_def)
  qed
qed

lemma verify_from_ok:
  "verify_from P es j = None \<Longrightarrow> j \<le> k \<Longrightarrow> k < length es \<Longrightarrow> entry_ok P es k"
proof (induction P es j rule: verify_from.induct)
  case (1 P entries i)
  from "1.prems"(2,3) have il: "i < length entries" by simp
  from "1.prems"(1) il have ok: "entry_ok P entries i" and nx: "verify_from P entries (i + 1) = None"
    by (subst (asm) verify_from.simps, simp add: entry_ok_def Let_def split: if_splits)+
  show ?case
  proof (cases "k = i")
    case True
    with ok show ?thesis by simp
  next
    case False
    with "1.prems"(2) have "i + 1 \<le> k" by simp
    with "1.IH" il ok nx "1.prems"(3) show ?thesis
      by (auto simp: entry_ok_def Let_def)
  qed
qed

lemma verify_from_first_bad:
  "j \<le> i \<Longrightarrow> i < length es \<Longrightarrow> (\<And>k. j \<le> k \<Longrightarrow> k < i \<Longrightarrow> entry_ok P es k) \<Longrightarrow>
     \<not> entry_ok P es i \<Longrightarrow> verify_from P es j = Some i"
proof (induction P es j rule: verify_from.induct)
  case (1 P entries j)
  from "1.prems"(1,2) have jl: "j < length entries" by simp
  show ?case
  proof (cases "j = i")
    case True
    with "1.prems"(4) jl show ?thesis
      by (subst verify_from.simps) (auto simp: entry_ok_def Let_def)
  next
    case False
    with "1.prems"(1) have lt: "j < i" by simp
    with "1.prems"(3)[of j] have ok: "entry_ok P entries j" by simp
    have "verify_from P entries (j + 1) = Some i"
      using "1.IH" jl ok lt "1.prems" by (auto simp: entry_ok_def Let_def)
    with ok jl show ?thesis
      by (subst verify_from.simps) (simp add: entry_ok_def Let_def)
  qed
qed

lemma verifyChain_valid_iff:
  assumes "getEntries lg None w = Inr es"
  shows "verifyChain P lg w = Inr \<lparr>valid = True, brokenAt = None, totalEntries = length es\<rparr>
           \<longleftrightarrow> (\<forall>k < length es. entry_ok P es k)"
proof
  assume v: "verifyChain P lg w = Inr \<lparr>valid = True, brokenAt = None, totalEntries = length es\<rparr>"
  show "\<forall>k < length es. entry_ok P es k"
  proof (cases "es = []")
    case True then show ?thesis by simp
  next
    case False
    with v assms have "verify_from P es 0 = None"
      by (auto simp: verifyChain_def split: option.splits)
    then show ?thesis using verify_from_ok[of P es 0] by simp
  qed
next
  assume "\<forall>k < length es. entry_ok P es k"
  then have "verify_from P es 0 = None" by (intro verify_from_None) simp
  with assms show "verifyChain P lg w = Inr \<lparr>valid = True, brokenAt = None, totalEntries = length es\<rparr>"
    by (simp add: verifyChain_def)
qed

lemma new_entry_ok: "entry_ok P (es @ [new_entry P es a c r b d n]) (length es)"
proof -
  let ?e = "new_entry P es a c r b d n"
  let ?prev = "if es \<noteq> [] then map_of (last es) ''hash'' else Some ''genesis''"
  let ?partial = "[(''eventId'', formatEventId (length es + 1)), (''timestamp'', n), (''action'', a),
                     (''credentialId'', c), (''result'', result_text r)]
                    @ opt_field ''prevHash'' ?prev @ opt_field ''botId'' b @ opt_field ''details'' d"
  have e: "?e = ?partial @ [(''hash'', computeHash P ?prev ?partial)]"
    by (simp add: new_entry_def Let_def)
  have f: "filter (\<lambda>kv. fst kv \<noteq> ''hash'') ?e = ?partial"
    unfolding e by (auto simp: opt_field_def split: option.splits)
  have p: "map_of ?e ''prevHash'' = ?prev"
    by (rule new_entry_fields(1))
  have h: "map_of ?e ''hash'' = Some (computeHash P ?prev ?partial)"
    unfolding e by (auto simp: opt_field_def split: option.splits)
  have x: "es \<noteq> [] \<Longrightarrow> (es @ [?e]) ! (length es - 1) = last es"
    by (simp add: nth_append last_conv_nth)
  show ?thesis
    unfolding entry_ok_def using x by (simp add: f p h del: append.simps)
qed


lemma all_ok_snoc:
  assumes "\<forall>k < length es. entry_ok P es k"
  shows "\<forall>k < length (es @ [new_entry P es a c r b d n]). entry_ok P (es @ [new_entry P es a c r b d n]) k"
proof (intro allI impI)
  fix k assume k: "k < length (es @ [new_entry P es a c r b d n])"
  show "entry_ok P (es @ [new_entry P es a c r b d n]) k"
  proof (cases "k < length es")
    case True
    then have "(es @ [new_entry P es a c r b d n]) ! k = es ! k"
      "(es @ [new_entry P es a c r b d n]) ! (k - 1) = es ! (k - 1)"
      by (auto simp: nth_append)
    with assms True show ?thesis by (simp add: entry_ok_def)
  next
    case False
    with k have "k = length es" by simp
    then show ?thesis using new_entry_ok[of P es a c r b d n] by simp
  qed
qed

lemma demo_entries_ok:
  "\<forall>k < length [demo_e0, demo_e1, demo_e2]. entry_ok demo_platform [demo_e0, demo_e1, demo_e2] k"
proof -
  have 0: "\<forall>k < length ([]::jobj list). entry_ok demo_platform [] k" by simp
  note 1 = all_ok_snoc[OF 0, of "''credential.created''" "''test-site''" success None None
      "''2026-01-01T00:00:00.000Z''", folded demo_e0_def, simplified]
  have 1: "\<forall>k < length [demo_e0]. entry_ok demo_platform [demo_e0] k" using 1 by simp
  note 2 = all_ok_snoc[OF 1, of "''credential.used''" "''test-site''" success "Some ''claude''" None
      "''2026-01-01T00:00:01.000Z''", folded demo_e1_def]
  have 2: "\<forall>k < length [demo_e0, demo_e1]. entry_ok demo_platform [demo_e0, demo_e1] k"
    using 2 by simp
  note 3 = all_ok_snoc[OF 2, of "''credential.removed''" "''test-site''" success None None
      "''2026-01-01T00:00:02.000Z''", folded demo_e2_def]
  then show ?thesis by simp
qed

lemma demo_entries_wf: "wf_entry demo_e0" "wf_entry demo_e1" "wf_entry demo_e2"
  by (simp_all add: demo_e0_def demo_e1_def demo_e2_def new_entry_wf)

lemma audit_world_on_file: "list_all wf_entry es \<Longrightarrow> on_file demo_logger (audit_world es) es"
  by (simp add: on_file_def audit_world_def)

lemma demo_e0_value:
  "demo_e0 = [(''eventId'', ''evt_001''), (''timestamp'', ''2026-01-01T00:00:00.000Z''),
      (''action'', ''credential.created''), (''credentialId'', ''test-site''),
      (''result'', ''success''), (''prevHash'', ''genesis''), (''hash'', ''b31f'')]"
  unfolding demo_e0_def by code_simp

lemma demo_e1_value:
  "demo_e1 = [(''eventId'', ''evt_002''), (''timestamp'', ''2026-01-01T00:00:01.000Z''),
      (''action'', ''credential.used''), (''credentialId'', ''test-site''),
      (''result'', ''success''), (''prevHash'', ''b31f''), (''botId'', ''claude''),
      (''hash'', ''c622'')]"
  unfolding demo_e1_def demo_e0_value by code_simp

lemma demo_e1_flipped:
  "map_of (set_result ''failure'' demo_e1) ''hash'' = map_of demo_e1 ''hash''"
  "sha256_hex demo_platform
     (js_string (map_of (set_result ''failure'' demo_e1) ''prevHash'') @
      JSON_stringify (obj_json (filter (\<lambda>kv. fst kv \<noteq> ''hash'') (set_result ''failure'' demo_e1)))) = ''0cfb''"
  "sha256_hex demo_platform
     (js_string (map_of demo_e1 ''prevHash'') @
      JSON_stringify (obj_json (filter (\<lambda>kv. fst kv \<noteq> ''hash'') demo_e1))) = ''c622''"
  unfolding demo_e1_value by code_simp+

lemma set_result_wf: "wf_entry e \<Longrightarrow> wf_entry (set_result r e)"
proof -
  have "map fst (set_result r e) = map fst e"
    by (induction e) (auto simp: set_result_def)
  then show "wf_entry e \<Longrightarrow> wf_entry (set_result r e)" by (simp add: wf_entry_def)
qed

lemma map_of_without_hash:
  "k \<noteq> ''hash'' \<Longrightarrow> map_of (filter (\<lambda>kv. fst kv \<noteq> ''hash'') e) k = map_of e k"
  by (induction e) auto

text \<open>
  Claim C3, as the code has it. Take a log that \<open>verifyChain\<close> reports valid, with
  entries \<open>es\<close>, and a modified log that still parses and whose entries differ from
  \<open>es\<close> at position \<open>i\<close> only, where the entry is now \<open>e'\<close> instead of
  \<open>es ! i\<close>. Then \<open>verifyChain\<close> on the modified log reports \<open>valid = false\<close>,
  \<open>brokenAt = i\<close> and the same total in each of these cases: the \<open>prevHash\<close>
  member was changed; only the \<open>hash\<close> member was changed (the other members are
  those of \<open>es ! i\<close>); the \<open>hash\<close> member was left as it is and the digest of the
  text hashed for \<open>e'\<close> (its \<open>prevHash\<close> followed by the JSON text of its members
  other than \<open>hash\<close>) differs from the digest of the text hashed for \<open>es ! i\<close>; the
  entry has no \<open>hash\<close> member any more. What remains is a change of the hashed text
  under which the digest stays the same, a collision of SHA-256, which goes undetected.
\<close>

theorem verifyChain_detects:
  assumes "getEntries lg None w = Inr es"
    and "verifyChain P lg w = Inr \<lparr>valid = True, brokenAt = None, totalEntries = length es\<rparr>"
    and "i < length es"
    and "getEntries lg None w' = Inr (es[i := e'])"
    and "map_of e' ''prevHash'' \<noteq> map_of (es ! i) ''prevHash''
         \<or> (filter (\<lambda>kv. fst kv \<noteq> ''hash'') e' = filter (\<lambda>kv. fst kv \<noteq> ''hash'') (es ! i) \<and>
             map_of e' ''hash'' \<noteq> map_of (es ! i) ''hash'')
         \<or> (map_of e' ''hash'' = map_of (es ! i) ''hash'' \<and>
             sha256_hex P (js_string (map_of e' ''prevHash'') @
                           JSON_stringify (obj_json (filter (\<lambda>kv. fst kv \<noteq> ''hash'') e')))
               \<noteq> sha256_hex P (js_string (map_of (es ! i) ''prevHash'') @
                                JSON_stringify (obj_json (filter (\<lambda>kv. fst kv \<noteq> ''hash'') (es ! i)))))
         \<or> map_of e' ''hash'' = None"
  shows "verifyChain P lg w' = Inr \<lparr>valid = False, brokenAt = Some i, totalEntries = length es\<rparr>"
proof -
  let ?rest = "\<lambda>e. filter (\<lambda>kv. fst kv \<noteq> ''hash'') e"
  let ?expected = "if i = 0 then Some ''genesis'' else map_of (es ! (i - 1)) ''hash''"
  have ok: "\<forall>k < length es. entry_ok P es k"
    using verifyChain_valid_iff[OF assms(1)] assms(2) by simp
  then have "entry_ok P es i" using assms(3) by simp
  then have old: "map_of (es ! i) ''prevHash'' = ?expected"
    "map_of (es ! i) ''hash'' = Some (computeHash P (map_of (es ! i) ''prevHash'') (?rest (es ! i)))"
    by (simp_all add: entry_ok_def)
  have before: "entry_ok P (es[i := e']) k" if "k < i" for k
  proof -
    have "(es[i := e']) ! k = es ! k" "(es[i := e']) ! (k - 1) = es ! (k - 1)"
      using that by simp_all
    moreover have "entry_ok P es k" using ok that assms(3) by simp
    ultimately show ?thesis by (simp add: entry_ok_def)
  qed
  have new: "map_of e' ''prevHash'' \<noteq> ?expected \<or>
             map_of e' ''hash'' \<noteq> Some (computeHash P (map_of e' ''prevHash'') (?rest e'))"
  proof -
    consider
      (c_prev) "map_of e' ''prevHash'' \<noteq> map_of (es ! i) ''prevHash''"
      | (c_hash) "?rest e' = ?rest (es ! i)" "map_of e' ''hash'' \<noteq> map_of (es ! i) ''hash''"
      | (c_text) "map_of e' ''hash'' = map_of (es ! i) ''hash''"
          "computeHash P (map_of e' ''prevHash'') (?rest e')
             \<noteq> computeHash P (map_of (es ! i) ''prevHash'') (?rest (es ! i))"
      | (c_none) "map_of e' ''hash'' = None"
      using assms(5) unfolding computeHash_def by (elim disjE conjE) auto
    then show ?thesis
    proof cases
      case c_prev
      then show ?thesis using old(1) by simp
    next
      case c_hash
      have "map_of e' ''prevHash'' = map_of (es ! i) ''prevHash''"
        using map_of_without_hash[of "''prevHash''" e'] map_of_without_hash[of "''prevHash''" "es ! i"]
          c_hash(1) by simp
      then show ?thesis using c_hash old(2) by simp
    next
      case c_text
      then show ?thesis using old(2) by simp
    next
      case c_none
      then show ?thesis by simp
    qed
  qed
  have at: "\<not> entry_ok P (es[i := e']) i"
  proof -
    have "(es[i := e']) ! i = e'" using assms(3) by simp
    moreover have "i \<noteq> 0 \<Longrightarrow> (es[i := e']) ! (i - 1) = es ! (i - 1)" by simp
    ultimately show ?thesis using new by (auto simp: entry_ok_def)
  qed
  have "verify_from P (es[i := e']) 0 = Some i"
    using before at assms(3) by (intro verify_from_first_bad) simp_all
  with assms(3,4) show ?thesis
    by (auto simp: verifyChain_def)
qed

text \<open>
  An instance: in a valid log of three entries the \<open>result\<close> member of entry 1 is
  changed from \<open>success\<close> to \<open>failure\<close>. The \<open>hash\<close> member is as it was, and the
  digests of the two hashed texts differ.
\<close>

theorem verifyChain_detects_witness:
  "verifyChain demo_platform demo_logger (audit_world [demo_e0, demo_e1, demo_e2]) =
     Inr \<lparr>valid = True, brokenAt = None, totalEntries = 3\<rparr> \<and>
   map_of (set_result ''failure'' demo_e1) ''hash'' = map_of demo_e1 ''hash'' \<and>
   set_result ''failure'' demo_e1 \<noteq> demo_e1 \<and>
   verifyChain demo_platform demo_logger (audit_world [demo_e0, set_result ''failure'' demo_e1, demo_e2]) =
     Inr \<lparr>valid = False, brokenAt = Some 1, totalEntries = 3\<rparr>"
proof -
  let ?es = "[demo_e0, demo_e1, demo_e2]"
  have g: "getEntries demo_logger None (audit_world ?es) = Inr ?es"
    by (intro getEntries_on_file audit_world_on_file) (simp add: demo_entries_wf)
  have v: "verifyChain demo_platform demo_logger (audit_world ?es) =
             Inr \<lparr>valid = True, brokenAt = None, totalEntries = length ?es\<rparr>"
    using verifyChain_valid_iff[OF g] demo_entries_ok by blast
  have g': "getEntries demo_logger None (audit_world [demo_e0, set_result ''failure'' demo_e1, demo_e2])
              = Inr (?es[1 := set_result ''failure'' demo_e1])"
    using getEntries_on_file[OF audit_world_on_file,
        of "[demo_e0, set_result ''failure'' demo_e1, demo_e2]"]
    by (simp add: demo_entries_wf set_result_wf)
  have i: "1 < length ?es" by simp
  have d: "set_result ''failure'' demo_e1 \<noteq> demo_e1"
    unfolding demo_e1_value by (simp add: set_result_def)
  have h: "map_of (set_result ''failure'' demo_e1) ''prevHash'' \<noteq> map_of (?es ! 1) ''prevHash''
         \<or> (filter (\<lambda>kv. fst kv \<noteq> ''hash'') (set_result ''failure'' demo_e1) =
              filter (\<lambda>kv. fst kv \<noteq> ''hash'') (?es ! 1) \<and>
             map_of (set_result ''failure'' demo_e1) ''hash'' \<noteq> map_of (?es ! 1) ''hash'')
         \<or> (map_of (set_result ''failure'' demo_e1) ''hash'' = map_of (?es ! 1) ''hash'' \<and>
             sha256_hex demo_platform (js_string (map_of (set_result ''failure'' demo_e1) ''prevHash'') @
                JSON_stringify (obj_json (filter (\<lambda>kv. fst kv \<noteq> ''hash'') (set_result ''failure'' demo_e1))))
               \<noteq> sha256_hex demo_platform (js_string (map_of (?es ! 1) ''prevHash'') @
                    JSON_stringify (obj_json (filter (\<lambda>kv. fst kv \<noteq> ''hash'') (?es ! 1)))))
         \<or> map_of (set_result ''failure'' demo_e1) ''hash'' = None"
    using demo_e1_flipped by simp
  from verifyChain_detects[OF g v i g' h] demo_e1_flipped(1) d v
  show ?thesis by simp
qed

text \<open>
  Claim C3 as stated (every single-byte modification of a line) fails: replacing the
  first byte of the only line of a valid log, the opening brace, by \<open>x\<close> leaves a line
  that is not JSON, and \<open>verifyChain\<close> ends with the parser's SyntaxError instead of
  reporting \<open>valid = false\<close> with \<open>brokenAt = 0\<close>. The outcome does not depend on the
  hash function.
\<close>

theorem verifyChain_parse_error_counterexample:
  "verifyChain demo_platform demo_logger (audit_world [demo_e0]) =
     Inr \<lparr>valid = True, brokenAt = None, totalEntries = 1\<rparr> \<and>
   file_of (map entry_line [demo_e0]) ! 0 = CHR ''{'' \<and>
   verifyChain demo_platform demo_logger
       (tamper_byte demo_logger 0 (CHR ''x'') (audit_world [demo_e0])) = Inl SyntaxError"
proof -
  have g: "getEntries demo_logger None (audit_world [demo_e0]) = Inr [demo_e0]"
    by (intro getEntries_on_file audit_world_on_file) (simp add: demo_entries_wf)
  have ok: "\<forall>k < length [demo_e0]. entry_ok demo_platform [demo_e0] k"
    using all_ok_snoc[of "[]" demo_platform "''credential.created''" "''test-site''" success None None
      "''2026-01-01T00:00:00.000Z''"] by (simp add: demo_e0_def)
  have v: "verifyChain demo_platform demo_logger (audit_world [demo_e0]) =
             Inr \<lparr>valid = True, brokenAt = None, totalEntries = 1\<rparr>"
    using verifyChain_valid_iff[OF g] ok by simp
  define t where "t = join '','' (map member_text demo_e0) @ ''}''"
  have line: "entry_line demo_e0 = CHR ''{'' # t"
    by (simp add: entry_line_def stringify_obj t_def)
  have nolf: "CHR 0x0A \<notin> set t"
    using entry_line_solid[of demo_e0] by (simp add: solid_def line)
  have tl: "t \<noteq> []" "last t = CHR ''}''" by (simp_all add: t_def)
  have files: "files (tamper_byte demo_logger 0 (CHR ''x'') (audit_world [demo_e0])) (auditFile demo_logger)
      = Some ((CHR ''x'' # t) @ [CHR 0x0A])"
    by (simp add: tamper_byte_def audit_world_def file_of_def line)
  have trim: "trim ((CHR ''x'' # t) @ [CHR 0x0A]) = CHR ''x'' # t"
    using tl by (intro trim_solid) (simp_all add: plain_def)
  have split: "split_lines (CHR ''x'' # t) = [CHR ''x'' # t]"
    using nolf by (intro split_lines_no_lf) simp
  have rej: "JSON_parse (CHR ''x'' # t) = Rejected"
    by (simp add: JSON_parse_def skip_ws_def is_json_ws_def value_start_def)
  have "getEntries demo_logger None (tamper_byte demo_logger 0 (CHR ''x'') (audit_world [demo_e0]))
          = Inl SyntaxError"
    by (simp add: getEntries_def readFile_def files trim split rej del: split_lines.simps append.simps)
  then have bad: "verifyChain demo_platform demo_logger
       (tamper_byte demo_logger 0 (CHR ''x'') (audit_world [demo_e0])) = Inl SyntaxError"
    by (simp add: verifyChain_def)
  have "file_of (map entry_line [demo_e0]) ! 0 = CHR ''{''"
    by (simp add: file_of_def line)
  with v bad show ?thesis by simp
qed

section \<open>Tools: list and status\<close>

text \<open>
  Claim C2, as the code has it. \<open>vaultList\<close> and \<open>vaultStatus\<close> are computed from
  the metadata projection of the credentials (and the audit log) alone and never decrypt:
  two stores whose credentials have the same metadata give the same serialised results,
  whatever secret payloads their ciphertexts hold.
\<close>

theorem list_status_independent_of_payload:
  assumes "map toMetadata (credentials st1) = map toMetadata (credentials st2)"
  shows "JSON_stringify (vaultList st1) = JSON_stringify (vaultList st2) \<and>
         map_sum id JSON_stringify (vaultStatus st1 lg site w) =
           map_sum id JSON_stringify (vaultStatus st2 lg site w)"
  using assms by (simp add: vaultList_def vaultStatus_def listCredentials_def)

section \<open>Tools: login\<close>

lemma log_appends:
  assumes "getEntries lg None w = Inr es"
  shows "log P lg a c r b d n w =
           (Inr (new_entry P es a c r b d n),
            appendFile (auditFile lg) (entry_line (new_entry P es a c r b d n) @ [CHR 0x0A]) w)"
  using assms by (simp add: log_def entry_line_def Let_def)

lemma new_entry_members:
  "map_of (new_entry P es a c r b d n) ''action'' = Some a"
  "map_of (new_entry P es a c r b d n) ''credentialId'' = Some c"
  "map_of (new_entry P es a c r b d n) ''result'' = Some (result_text r)"
  "map_of (new_entry P es a c r b d n) ''botId'' = b"
  "map_of (new_entry P es a c r b d n) ''details'' = d"
  by (auto simp: new_entry_def opt_field_def Let_def split: option.splits)

text \<open>
  Claim C5, as the code has it. \<open>vaultLogin\<close> first looks the credential up, which
  decrypts it when it exists. If that lookup returns and the audit log can be read, then
  whenever a precondition fails the call appends exactly one entry (result \<open>failure\<close>,
  the reason of the first failed precondition as details) to the audit file, returns the
  failure response with that precondition's message, and does not invoke the browser
  adapter; the first failed precondition is taken in the order exists, active,
  \<open>web_login\<close>, login URL and selectors set.
\<close>

theorem vaultLogin_precondition_failure:
  assumes "getCredential P st w site newKey = (Inr cred, w1)"
    and "getEntries lg None w1 = Inr es"
    and "first_failed_precondition site cred = Some (reason, msg)"
  shows "vaultLogin P bridge st lg site newKey now w =
           (Inr \<lparr>lo_status = ''failure'', lo_page_title = None, lo_message = msg\<rparr>,
            appendFile (auditFile lg)
              (entry_line (new_entry P es ''credential.used'' site failure (Some ''claude'')
                             (Some reason) now) @ [CHR 0x0A]) w1,
            []) \<and>
         map_of (new_entry P es ''credential.used'' site failure (Some ''claude'') (Some reason) now)
           ''result'' = Some ''failure'' \<and>
         map_of (new_entry P es ''credential.used'' site failure (Some ''claude'') (Some reason) now)
           ''details'' = Some reason \<and>
         map_of (new_entry P es ''credential.used'' site failure (Some ''claude'') (Some reason) now)
           ''credentialId'' = Some site"
proof -
  have af: "audit_failure P lg site reason msg now w1 =
      (Inr \<lparr>lo_status = ''failure'', lo_page_title = None, lo_message = msg\<rparr>,
            appendFile (auditFile lg)
              (entry_line (new_entry P es ''credential.used'' site failure (Some ''claude'')
                             (Some reason) now) @ [CHR 0x0A]) w1, [])"
    by (simp add: audit_failure_def log_appends[OF assms(2)])
  have "vaultLogin P bridge st lg site newKey now w = audit_failure P lg site reason msg now w1"
    using assms(1,3)
    by (auto simp: vaultLogin_def first_failed_precondition_def truthy_def
          split: option.splits if_splits)
  with af show ?thesis
    by (simp add: new_entry_members result_text_def)
qed

text \<open>When no precondition fails, the adapter is invoked (once).\<close>

lemma vaultLogin_invokes_bridge:
  assumes "getCredential P st w site newKey = (Inr cred, w1)"
    and "first_failed_precondition site cred = None"
  shows "length (snd (snd (vaultLogin P bridge st lg site newKey now w))) = 1"
  using assms
  by (auto simp: vaultLogin_def first_failed_precondition_def truthy_def Let_def
        split: option.splits if_splits prod.splits sum.splits)

section \<open>Tools: api_request\<close>

lemma map_of_update_fold:
  "map_of (fold (\<lambda>kv obj. AList.update (fst kv) (snd kv) obj) kvs acc) = map_of acc ++ map_of (rev kvs)"
proof (induction kvs arbitrary: acc)
  case Nil
  then show ?case by simp
next
  case (Cons kv kvs)
  have "map_of (AList.update (fst kv) (snd kv) acc) = (map_of acc)(fst kv \<mapsto> snd kv)"
    by (simp add: update_conv')
  then show ?case
    by (simp add: Cons.IH map_add_def fun_eq_iff split: option.splits)
qed

lemma map_of_rev_distinct: "distinct (map fst xs) \<Longrightarrow> map_of (rev xs) = map_of xs"
proof (induction xs)
  case Nil
  then show ?case by simp
next
  case (Cons kv xs)
  then have "fst kv \<notin> dom (map_of xs)" by (auto simp: dom_map_of_conv_image_fst)
  then have "map_of xs (fst kv) = None" by blast
  with Cons show ?case
    by (auto simp: map_add_def fun_eq_iff split: option.splits)
qed

lemma map_of_js_spread:
  assumes "distinct (map fst a)" and "distinct (map fst b)"
  shows "map_of (js_spread a b) = map_of a ++ map_of b"
  by (simp add: js_spread_def map_of_update_fold map_of_rev_distinct assms)

lemma vaultApiRequest_calls:
  assumes "getCredential P st w service newKey = (Inr (Some (metadata, data)), w1)"
    and "active metadata" and "serviceType metadata = ''api_key''"
  shows "snd (snd (vaultApiRequest P fetch err_text st lg service url meth body headers newKey now w)) =
           [(url,
             \<lparr>fo_method = (case meth of None \<Rightarrow> ''GET'' | Some m \<Rightarrow> m),
              fo_headers = js_spread (case pd_headers data of None \<Rightarrow> [] | Some h \<Rightarrow> h)
                                     (case headers of None \<Rightarrow> [] | Some h \<Rightarrow> h),
              fo_body = (if truthy body \<and> (case meth of None \<Rightarrow> ''GET'' | Some m \<Rightarrow> m) \<noteq> ''GET''
                         then body else None)\<rparr>)]"
  using assms
  by (simp add: vaultApiRequest_def Let_def split: sum.splits prod.splits)

text \<open>
  Claim C1, as the code has it. For an existing, active \<open>api_key\<close> credential whose
  payload decrypts, the call issues exactly one request, to the given URL, and its headers
  are the stored headers overlaid by the caller-supplied ones: a name the caller supplies
  carries the caller's value, any other name its stored value.
\<close>

theorem vaultApiRequest_headers:
  assumes "getCredential P st w service newKey = (Inr (Some (metadata, data)), w1)"
    and "active metadata" and "serviceType metadata = ''api_key''"
    and "stored = (case pd_headers data of None \<Rightarrow> [] | Some h \<Rightarrow> h)"
    and "caller = (case headers of None \<Rightarrow> [] | Some h \<Rightarrow> h)"
    and "distinct (map fst stored)" and "distinct (map fst caller)"
  shows "\<exists>opts. snd (snd (vaultApiRequest P fetch err_text st lg service url meth body headers
                             newKey now w)) = [(url, opts)] \<and>
           (\<forall>name. map_of (fo_headers opts) name =
              (case map_of caller name of
                 Some v \<Rightarrow> Some v
               | None \<Rightarrow> map_of stored name))"
proof -
  have "map_of (js_spread stored caller) name =
          (case map_of caller name of Some v \<Rightarrow> Some v | None \<Rightarrow> map_of stored name)" for name
    by (simp add: map_of_js_spread assms(6,7) map_add_def)
  then show ?thesis
    using vaultApiRequest_calls[OF assms(1-3), of fetch err_text lg url meth body headers now]
    by (simp add: assms(4,5))
qed

section \<open>Tools: examples\<close>

lemma demo_api_lookup:
  "getCredential demo_platform demo_api_store demo_world ''stripe'' demo_nk =
     (Inr (Some (toMetadata (demo_cred ''stripe'' ''api_key'' True (demo_iv @ ''A'' @ demo_tag demo_key)),
                 demo_api_payload)), demo_world_cached)"
  by (simp add: demo_api_store_def demo_world_cached_def store_defs demo_defs Let_def)

lemma demo_inactive_lookup:
  "getCredential demo_platform demo_inactive_store demo_world ''inactive-site'' demo_nk =
     (Inr (Some (toMetadata (demo_cred ''inactive-site'' ''web_login'' False
                    (demo_iv @ ''S'' @ demo_tag demo_key)),
                 demo_short_payload)), demo_world_cached)"
  by (simp add: demo_inactive_store_def demo_world_cached_def store_defs demo_defs Let_def)

lemma demo_wrongkey_lookup:
  "getCredential demo_platform demo_wrongkey_store demo_world ''inactive-site'' demo_nk =
     (Inl CryptoError, demo_world_cached)"
  by (simp add: demo_wrongkey_store_def demo_world_cached_def store_defs demo_defs Let_def)

text \<open>
  Claim C1 as stated (the stored value wins on conflict) fails: with the stored header
  \<open>Authorization: Bearer sk-live-123\<close> and a caller-supplied \<open>Authorization\<close>
  header, the request goes out with the caller's value.
\<close>

theorem vaultApiRequest_caller_wins_counterexample:
  "fst (getCredential demo_platform demo_api_store demo_world ''stripe'' demo_nk) =
     Inr (Some (toMetadata (demo_cred ''stripe'' ''api_key'' True (demo_iv @ ''A'' @ demo_tag demo_key)),
                demo_api_payload)) \<and>
   pd_headers demo_api_payload = Some [(''Authorization'', ''Bearer sk-live-123'')] \<and>
   snd (snd (vaultApiRequest demo_platform demo_fetch demo_err_text demo_api_store demo_logger
               ''stripe'' ''https://api.stripe.com/v1/charges'' None None
               (Some [(''Authorization'', ''Bearer other-key'')]) demo_nk demo_now demo_world)) =
     [(''https://api.stripe.com/v1/charges'',
       \<lparr>fo_method = ''GET'', fo_headers = [(''Authorization'', ''Bearer other-key'')],
        fo_body = None\<rparr>)]"
proof -
  have a: "active (toMetadata (demo_cred ''stripe'' ''api_key'' True (demo_iv @ ''A'' @ demo_tag demo_key)))"
    and t: "serviceType (toMetadata (demo_cred ''stripe'' ''api_key'' True (demo_iv @ ''A'' @ demo_tag demo_key)))
            = ''api_key''"
    by (simp_all add: toMetadata_def demo_cred_def CredentialMetadata.truncate_def)
  show ?thesis
    using vaultApiRequest_calls[OF demo_api_lookup a t, of demo_fetch demo_err_text demo_logger
        "''https://api.stripe.com/v1/charges''" None None "Some [(''Authorization'', ''Bearer other-key'')]"
        demo_now]
    by (simp add: demo_api_lookup demo_api_payload_def js_spread_def truthy_def)
qed

theorem vaultApiRequest_headers_witness:
  "\<exists>opts. snd (snd (vaultApiRequest demo_platform demo_fetch demo_err_text demo_api_store demo_logger
               ''stripe'' ''https://api.stripe.com/v1/charges'' None None
               (Some [(''Accept'', ''application/json''), (''Authorization'', ''Bearer other-key'')])
               demo_nk demo_now demo_world)) = [(''https://api.stripe.com/v1/charges'', opts)] \<and>
          map_of (fo_headers opts) ''Accept'' = Some ''application/json'' \<and>
          map_of (fo_headers opts) ''Authorization'' = Some ''Bearer other-key'' \<and>
          map_of (fo_headers opts) ''X-Other'' = None"
proof -
  have a: "active (toMetadata (demo_cred ''stripe'' ''api_key'' True (demo_iv @ ''A'' @ demo_tag demo_key)))"
    and t: "serviceType (toMetadata (demo_cred ''stripe'' ''api_key'' True (demo_iv @ ''A'' @ demo_tag demo_key)))
            = ''api_key''"
    by (simp_all add: toMetadata_def demo_cred_def CredentialMetadata.truncate_def)
  have s: "[(''Authorization'', ''Bearer sk-live-123'')] =
           (case pd_headers demo_api_payload of None \<Rightarrow> [] | Some h \<Rightarrow> h)"
    by (simp add: demo_api_payload_def)
  have c: "[(''Accept'', ''application/json''), (''Authorization'', ''Bearer other-key'')] =
           (case Some [(''Accept'', ''application/json''), (''Authorization'', ''Bearer other-key'')] of
              None \<Rightarrow> [] | Some h \<Rightarrow> h)"
    by simp
  from vaultApiRequest_headers[OF demo_api_lookup a t s c, of demo_fetch demo_err_text demo_logger
        "''https://api.stripe.com/v1/charges''" None None demo_now]
  obtain opts where
    o: "snd (snd (vaultApiRequest demo_platform demo_fetch demo_err_text demo_api_store demo_logger
               ''stripe'' ''https://api.stripe.com/v1/charges'' None None
               (Some [(''Accept'', ''application/json''), (''Authorization'', ''Bearer other-key'')])
               demo_nk demo_now demo_world)) = [(''https://api.stripe.com/v1/charges'', opts)]"
    and h: "\<And>name. map_of (fo_headers opts) name =
              (case map_of [(''Accept'', ''application/json''), (''Authorization'', ''Bearer other-key'')] name of
                 Some v \<Rightarrow> Some v
               | None \<Rightarrow> map_of [(''Authorization'', ''Bearer sk-live-123'')] name)"
    by auto
  have "map_of (fo_headers opts) ''Accept'' = Some ''application/json''"
    "map_of (fo_headers opts) ''Authorization'' = Some ''Bearer other-key''"
    "map_of (fo_headers opts) ''X-Other'' = None"
    by (simp_all add: h)
  with o show ?thesis by blast
qed

theorem list_status_independent_of_payload_witness:
  "JSON_stringify (vaultList (demo_store [demo_cred ''test-site'' ''web_login'' True ''ciphertext-1''])) =
     JSON_stringify (vaultList (demo_store [demo_cred ''test-site'' ''web_login'' True ''ciphertext-2''])) \<and>
   map_sum id JSON_stringify
     (vaultStatus (demo_store [demo_cred ''test-site'' ''web_login'' True ''ciphertext-1'']) demo_logger
        ''test-site'' demo_world) =
   map_sum id JSON_stringify
     (vaultStatus (demo_store [demo_cred ''test-site'' ''web_login'' True ''ciphertext-2'']) demo_logger
        ''test-site'' demo_world)"
proof -
  have m: "map toMetadata (credentials (demo_store [demo_cred ''test-site'' ''web_login'' True ''ciphertext-1''])) =
           map toMetadata (credentials (demo_store [demo_cred ''test-site'' ''web_login'' True ''ciphertext-2'']))"
    by (simp add: demo_store_def demo_cred_def toMetadata_def CredentialMetadata.truncate_def)
  from list_status_independent_of_payload[OF m, of demo_logger "''test-site''" demo_world]
  show ?thesis .
qed

text \<open>
  Claim C2 as stated (no substring equal to a stored secret) fails on the fixture of the
  repository's own tool tests, a credential \<open>inactive-site\<close> with email \<open>a\<close>: the
  serialised list contains the letter.
\<close>

lemma demo_list_json:
  \<open>JSON_stringify (vaultList demo_inactive_store) =
     ''{"credentials":[{"siteId":"inactive-site","serviceType":"web_login","active":false}]}''\<close>
  by code_simp

theorem list_contains_email_counterexample:
  \<open>fst (getCredential demo_platform demo_inactive_store demo_world ''inactive-site'' demo_nk) =
     Inr (Some (toMetadata (demo_cred ''inactive-site'' ''web_login'' False
                    (demo_iv @ ''S'' @ demo_tag demo_key)),
                demo_short_payload)) \<and>
   pd_email demo_short_payload = Some ''a'' \<and>
   JSON_stringify (vaultList demo_inactive_store) =
     ''{"credentials":[{"siteId":"inactive-site","serviceType":"web_login","active":false}]}'' \<and>
   sublist ''a'' (JSON_stringify (vaultList demo_inactive_store))\<close>
proof -
  have \<open>sublist ''a''
     ''{"credentials":[{"siteId":"inactive-site","serviceType":"web_login","active":false}]}''\<close>
    by code_simp
  then show ?thesis
    by (simp add: demo_inactive_lookup demo_list_json demo_short_payload_def)
qed

text \<open>
  Claim C5 as stated (every call, whenever a precondition fails) fails for a credential
  that exists, is inactive, and was encrypted under another master key: the lookup throws
  the cipher's error before the active flag is looked at, no audit entry is written and no
  failure response is returned.
\<close>

theorem vaultLogin_crypto_error_counterexample:
  "\<not> active (hd (credentials demo_wrongkey_store)) \<and>
   vaultLogin demo_platform demo_bridge demo_wrongkey_store demo_logger ''inactive-site''
       demo_nk demo_now demo_world = (Inl CryptoError, demo_world_cached, []) \<and>
   files demo_world_cached (auditFile demo_logger) = None \<and>
   write_log demo_world_cached = []"
  by (simp add: vaultLogin_def demo_wrongkey_lookup)
     (simp add: demo_wrongkey_store_def demo_store_def demo_cred_def demo_world_cached_def
        demo_world_def)

theorem vaultLogin_precondition_failure_witness:
  "vaultLogin demo_platform demo_bridge demo_inactive_store demo_logger ''inactive-site''
       demo_nk demo_now demo_world =
     (Inr \<lparr>lo_status = ''failure'', lo_page_title = None,
           lo_message = ''Credential is inactive: inactive-site''\<rparr>,
      appendFile (auditFile demo_logger)
        (entry_line (new_entry demo_platform [] ''credential.used'' ''inactive-site'' failure
                       (Some ''claude'') (Some ''Credential is inactive'') demo_now) @ [CHR 0x0A])
        demo_world_cached,
      []) \<and>
   map_of (new_entry demo_platform [] ''credential.used'' ''inactive-site'' failure (Some ''claude'')
             (Some ''Credential is inactive'') demo_now) ''result'' = Some ''failure'' \<and>
   map_of (new_entry demo_platform [] ''credential.used'' ''inactive-site'' failure (Some ''claude'')
             (Some ''Credential is inactive'') demo_now) ''details'' = Some ''Credential is inactive''"
proof -
  have g: "getEntries demo_logger None demo_world_cached = Inr []"
    by (simp add: getEntries_def readFile_def demo_world_cached_def demo_world_def)
  have f: "first_failed_precondition ''inactive-site''
             (Some (toMetadata (demo_cred ''inactive-site'' ''web_login'' False
                      (demo_iv @ ''S'' @ demo_tag demo_key)), demo_short_payload)) =
           Some (''Credential is inactive'', ''Credential is inactive: inactive-site'')"
    by (simp add: first_failed_precondition_def toMetadata_def demo_cred_def
        CredentialMetadata.truncate_def)
  from vaultLogin_precondition_failure[OF demo_inactive_lookup g f, of demo_bridge demo_now]
  show ?thesis by simp
qed

section \<open>Gateway: the pending slot\<close>

lemma resolve_settled:
  "settled (resolve p v g) q = (if q = p \<and> settled g p = None then Some v else settled g q)"
  by (simp add: resolve_def split: option.splits)

lemma resolve_pending [simp]: "pendingCallbacks (resolve p v g) = pendingCallbacks g"
  by (simp add: resolve_def split: option.splits)

text \<open>
  A promise is resolved at most once: whatever happens after it was resolved, its value
  stays.
\<close>

lemma settled_stays:
  "settled g p = Some v \<Longrightarrow> settled (gateway_step e g) p = Some v"
  by (auto simp: gateway_step_def timer_fires_def notify_def resolve_settled
        split: gateway_event.splits option.splits)

lemma settled_stays_fold:
  "settled g p = Some v \<Longrightarrow> settled (fold gateway_step evs g) p = Some v"
  by (induction evs arbitrary: g) (simp_all add: settled_stays)

text \<open>
  For a registered, unresolved slot, whichever of the timeout and a matching submission
  runs first removes the slot and resolves the promise, and the other one, running
  later, leaves the gateway as it is.
\<close>

lemma timeout_first:
  assumes "pendingCallbacks g token = Some p" and "settled g p = None" and "token \<noteq> []"
  shows "settled (timer_fires token p g) p = Some ''__timeout__''"
    and "pendingCallbacks (timer_fires token p g) token = None"
    and "notify (Some token) site (timer_fires token p g) = timer_fires token p g"
  using assms by (simp_all add: timer_fires_def notify_def resolve_settled truthy_def)

lemma submission_first:
  assumes "pendingCallbacks g token = Some p" and "settled g p = None" and "token \<noteq> []"
  shows "settled (notify (Some token) site g) p = Some site"
    and "pendingCallbacks (notify (Some token) site g) token = None"
    and "timer_fires token p (notify (Some token) site g) = notify (Some token) site g"
  using assms by (simp_all add: timer_fires_def notify_def resolve_settled truthy_def)

section \<open>Gateway: a submission\<close>

lemma getEntries_files:
  "files w1 (auditFile lg) = files w (auditFile lg) \<Longrightarrow> getEntries lg s w1 = getEntries lg s w"
  by (simp add: getEntries_def readFile_def)

lemma getMasterKey_files:
  "path \<noteq> path_join P (getVaultDir P dd) ''.master-key'' \<Longrightarrow>
     files (snd (getMasterKey P dd nk w)) path = files w path"
  by (simp add: getMasterKey_def resolveMasterKey_def writeFile_def readFile_def Let_def
        split: option.splits)

lemma addCredential_effect:
  assumes "addCredential P st w site stype pd url sels uuid now iv nk = (meta, st', w1)"
  shows "\<exists>stored. credentials st' = credentials st @ [stored] \<and> siteId stored = site \<and>
                   meta = toMetadata stored"
    and "credentialsFile st' = credentialsFile st"
    and "files w1 (credentialsFile st) = Some (credentials_stringify P (credentials st'))"
    and "path \<noteq> credentialsFile st \<Longrightarrow> path \<noteq> path_join P (getVaultDir P (dataDir st)) ''.master-key''
           \<Longrightarrow> files w1 path = files w path"
proof -
  obtain enc w0 where e: "encrypt P pd (dataDir st) iv nk w = (enc, w0)"
    by (cases "encrypt P pd (dataDir st) iv nk w")
  then have w0: "w0 = snd (getMasterKey P (dataDir st) nk w)"
    by (auto simp: encrypt_def Let_def split: prod.splits)
  from assms e show "\<exists>stored. credentials st' = credentials st @ [stored] \<and> siteId stored = site \<and>
                   meta = toMetadata stored"
    by (auto simp: addCredential_def Let_def)
  from assms e show "credentialsFile st' = credentialsFile st"
    by (auto simp: addCredential_def Let_def)
  from assms e show "files w1 (credentialsFile st) = Some (credentials_stringify P (credentials st'))"
    by (auto simp: addCredential_def Let_def save_def writeFile_def)
  show "files w1 path = files w path"
    if "path \<noteq> credentialsFile st" "path \<noteq> path_join P (getVaultDir P (dataDir st)) ''.master-key''"
    using assms e that getMasterKey_files[OF that(2), of nk w]
    by (auto simp: addCredential_def Let_def save_def writeFile_def w0)
qed

lemma post_credentials_effect:
  assumes "pendingCallbacks g token = Some p" and "settled g p = None" and "token \<noteq> []"
    and "pb_token body = Some token"
    and "getEntries lg None w = Inr es"
    and "auditFile lg \<noteq> credentialsFile st"
    and "auditFile lg \<noteq> path_join P (getVaultDir P (dataDir st)) ''.master-key''"
    and "post_credentials P st lg g body uuid now iv newKey now' w = (resp, st', g', w')"
  shows "(\<exists>stored. resp = Created (toMetadata stored) \<and>
                    credentials st' = credentials st @ [stored] \<and> siteId stored = pb_siteId body) \<and>
         files w' (credentialsFile st) = Some (credentials_stringify P (credentials st')) \<and>
         files w' (auditFile lg) =
           Some ((case files w (auditFile lg) of None \<Rightarrow> [] | Some old \<Rightarrow> old) @
                 entry_line (new_entry P es ''credential.created'' (pb_siteId body) success None
                               (Some ''via dashboard'') now') @ [CHR 0x0A]) \<and>
         pendingCallbacks g' token = None \<and>
         settled g' p = Some (pb_siteId body) \<and>
         vaultAdd_returns p g' = Some (vaultAdd_finish (pb_siteId body))"
proof -
  define plainData where "plainData =
            (if pb_serviceType body = ''api_key'' then
               \<lparr>pd_email = None, pd_password = None, pd_apiKey = pb_apiKey body,
                pd_headers = Some [(or_else (pb_headerName body) ''Authorization'',
                                    or_else (pb_headerPrefix body) ''Bearer '' @ js_string (pb_apiKey body))]\<rparr>
             else
               \<lparr>pd_email = pb_email body, pd_password = pb_password body, pd_apiKey = None,
                pd_headers = None\<rparr>)"
  define finalSelectors where
    "finalSelectors = (if pb_serviceType body = ''api_key'' then None else pb_selectors body)"
  obtain meta st1 w1 where a: "addCredential P st w (pb_siteId body) (pb_serviceType body) plainData
                              (pb_loginUrl body) finalSelectors uuid now iv newKey = (meta, st1, w1)"
    by (metis prod_cases3)
  note eff = addCredential_effect[OF a]
  have g1: "getEntries lg None w1 = Inr es"
    using getEntries_files[of w1 lg w None] eff(4)[OF assms(6,7)] assms(5) by simp
  let ?e = "new_entry P es ''credential.created'' (pb_siteId body) success None (Some ''via dashboard'') now'"
  have l: "log P lg ''credential.created'' (pb_siteId body) success None (Some ''via dashboard'') now' w1
             = (Inr ?e, appendFile (auditFile lg) (entry_line ?e @ [CHR 0x0A]) w1)"
    by (rule log_appends[OF g1])
  have r: "resp = Created meta" "st' = st1" "g' = notify (Some token) (pb_siteId body) g"
    "w' = appendFile (auditFile lg) (entry_line ?e @ [CHR 0x0A]) w1"
    using assms(8,4) a l
    by (simp_all add: post_credentials_def Let_def plainData_def[symmetric] finalSelectors_def[symmetric])
  from eff(1) obtain stored where s: "credentials st1 = credentials st @ [stored]"
    "siteId stored = pb_siteId body" "meta = toMetadata stored"
    by blast
  have f1: "files w' (credentialsFile st) = Some (credentials_stringify P (credentials st'))"
    using eff(3) assms(6) by (simp add: r appendFile_def)
  have f2: "files w' (auditFile lg) =
           Some ((case files w (auditFile lg) of None \<Rightarrow> [] | Some old \<Rightarrow> old) @ entry_line ?e @ [CHR 0x0A])"
    using eff(4)[OF assms(6,7)] by (simp add: r appendFile_def split: option.splits)
  note sf = submission_first[OF assms(1,2,3), of "pb_siteId body"]
  show ?thesis
    using s f1 f2 sf(1,2) by (auto simp: r vaultAdd_returns_def)
qed

text \<open>
  When the audit log cannot be read, \<open>log\<close> throws after the credential was added:
  the handler answers 500, writes nothing to the audit file and does not notify.
\<close>

lemma post_credentials_unreadable:
  assumes "getEntries lg None w = Inl err"
    and "auditFile lg \<noteq> credentialsFile st"
    and "auditFile lg \<noteq> path_join P (getVaultDir P (dataDir st)) ''.master-key''"
    and "post_credentials P st lg g body uuid now iv newKey now' w = (resp, st', g', w')"
  shows "resp = InternalServerError \<and> g' = g \<and>
         (\<exists>stored. credentials st' = credentials st @ [stored] \<and> siteId stored = pb_siteId body) \<and>
         files w' (credentialsFile st) = Some (credentials_stringify P (credentials st')) \<and>
         files w' (auditFile lg) = files w (auditFile lg)"
proof -
  define plainData where "plainData =
            (if pb_serviceType body = ''api_key'' then
               \<lparr>pd_email = None, pd_password = None, pd_apiKey = pb_apiKey body,
                pd_headers = Some [(or_else (pb_headerName body) ''Authorization'',
                                    or_else (pb_headerPrefix body) ''Bearer '' @ js_string (pb_apiKey body))]\<rparr>
             else
               \<lparr>pd_email = pb_email body, pd_password = pb_password body, pd_apiKey = None,
                pd_headers = None\<rparr>)"
  define finalSelectors where
    "finalSelectors = (if pb_serviceType body = ''api_key'' then None else pb_selectors body)"
  obtain meta st1 w1 where a: "addCredential P st w (pb_siteId body) (pb_serviceType body) plainData
                              (pb_loginUrl body) finalSelectors uuid now iv newKey = (meta, st1, w1)"
    by (metis prod_cases3)
  note eff = addCredential_effect[OF a]
  have g1: "getEntries lg None w1 = Inl err"
    using getEntries_files[of w1 lg w None] eff(4)[OF assms(2,3)] assms(1) by simp
  have l: "log P lg ''credential.created'' (pb_siteId body) success None (Some ''via dashboard'') now' w1
             = (Inl err, w1)"
    by (simp add: log_def g1)
  have r: "resp = InternalServerError" "st' = st1" "g' = g" "w' = w1"
    using assms(4) a l
    by (simp_all add: post_credentials_def Let_def plainData_def[symmetric] finalSelectors_def[symmetric])
  from eff(1) obtain stored where s: "credentials st1 = credentials st @ [stored]"
    "siteId stored = pb_siteId body"
    by blast
  show ?thesis
    using s eff(3) eff(4)[OF assms(2,3)] by (auto simp: r)
qed

text \<open>
  Claim C9, as the code has it. A form submission arrives while the slot of its token is
  registered and unresolved (so before the timeout), and names the site \<open>__timeout__\<close>.
  With the audit log readable and kept in a file of its own, the handler stores the
  credential (appended to the vector and written to the credentials file), appends one
  line to the audit log, the JSON text of an entry with action \<open>credential.created\<close>,
  credential \<open>__timeout__\<close>, result \<open>success\<close>, details \<open>via dashboard\<close> and the
  time of the call, removes the slot and resolves it with the site identifier, which is
  the timeout sentinel: the waiting \<open>vault_add\<close> call returns status \<open>timeout\<close>.
\<close>

theorem sentinel_submission_times_out:
  assumes "pendingCallbacks g token = Some p" and "settled g p = None" and "token \<noteq> []"
    and "pb_token body = Some token" and "pb_siteId body = ''__timeout__''"
    and "getEntries lg None w = Inr es"
    and "auditFile lg \<noteq> credentialsFile st"
    and "auditFile lg \<noteq> path_join P (getVaultDir P (dataDir st)) ''.master-key''"
    and "post_credentials P st lg g body uuid now iv newKey now' w = (resp, st', g', w')"
  shows "(\<exists>stored. resp = Created (toMetadata stored) \<and>
                    credentials st' = credentials st @ [stored] \<and> siteId stored = ''__timeout__'') \<and>
         files w' (credentialsFile st) = Some (credentials_stringify P (credentials st')) \<and>
         (\<exists>entry. files w' (auditFile lg) =
                     Some ((case files w (auditFile lg) of None \<Rightarrow> [] | Some old \<Rightarrow> old) @
                           JSON_stringify (obj_json entry) @ [CHR 0x0A]) \<and>
                   entry = new_entry P es ''credential.created'' ''__timeout__'' success None
                             (Some ''via dashboard'') now' \<and>
                   map_of entry ''action'' = Some ''credential.created'' \<and>
                   map_of entry ''credentialId'' = Some ''__timeout__'' \<and>
                   map_of entry ''result'' = Some ''success'' \<and>
                   map_of entry ''details'' = Some ''via dashboard'' \<and>
                   map_of entry ''timestamp'' = Some now') \<and>
         pendingCallbacks g' token = None \<and>
         vaultAdd_returns p g' =
           Some \<lparr>ad_status = ''timeout'', ad_site_id = None,
                 ad_message = ''Credential form was not submitted within 5 minutes. Try again with vault_add.''\<rparr>"
proof -
  let ?e = "new_entry P es ''credential.created'' ''__timeout__'' success None (Some ''via dashboard'') now'"
  have t: "map_of ?e ''timestamp'' = Some now'"
    by (simp add: new_entry_def Let_def)
  have m: "map_of ?e ''action'' = Some ''credential.created''"
    "map_of ?e ''credentialId'' = Some ''__timeout__''"
    "map_of ?e ''result'' = Some ''success''"
    "map_of ?e ''details'' = Some ''via dashboard''"
    using new_entry_members[of P es "''credential.created''" "''__timeout__''" success None
        "Some ''via dashboard''" now']
    by (simp_all add: result_text_def)
  from post_credentials_effect[OF assms(1-4,6-9)] show ?thesis
    using t m by (simp add: assms(5) vaultAdd_finish_def entry_line_def)
qed

lemma demo_gateway_value:
  "demo_gateway = \<lparr>pendingCallbacks = [demo_token \<mapsto> 0], settled = Map.empty,
                    timers = [(demo_token, 0)], promise_count = 1\<rparr>"
  by (simp add: demo_gateway_def vaultAdd_begin_def onCredentialAdded_def new_gateway_def Let_def)

lemma demo_post_hyps:
  "pendingCallbacks demo_gateway demo_token = Some 0" "settled demo_gateway 0 = None"
  "demo_token \<noteq> []" "pb_token demo_post = Some demo_token" "pb_siteId demo_post = ''__timeout__''"
  "getEntries demo_logger None demo_world = Inr []"
  "auditFile demo_logger \<noteq> credentialsFile (demo_store [])"
  "auditFile demo_logger \<noteq>
     path_join demo_platform (getVaultDir demo_platform (dataDir (demo_store []))) ''.master-key''"
  by (simp_all add: demo_gateway_value demo_token_def demo_post_def getEntries_def readFile_def
        demo_world_def demo_logger_def demo_store_def demo_platform_def getVaultDir_def or_else_def)

theorem sentinel_submission_times_out_witness:
  "pendingCallbacks demo_gateway demo_token = Some 0 \<and> settled demo_gateway 0 = None \<and>
   pb_token demo_post = Some demo_token \<and> pb_siteId demo_post = ''__timeout__'' \<and>
   getEntries demo_logger None demo_world = Inr [] \<and>
   (case post_credentials demo_platform (demo_store []) demo_logger demo_gateway demo_post
           demo_uuid demo_now demo_iv demo_nk demo_now demo_world of
      (resp, st', g', w') \<Rightarrow>
        (\<exists>stored. resp = Created (toMetadata stored) \<and>
                   credentials st' = credentials (demo_store []) @ [stored] \<and>
                   siteId stored = ''__timeout__'') \<and>
        files w' (credentialsFile (demo_store [])) =
          Some (credentials_stringify demo_platform (credentials st')) \<and>
        (\<exists>entry. files w' (auditFile demo_logger) = Some (JSON_stringify (obj_json entry) @ [CHR 0x0A]) \<and>
                  map_of entry ''action'' = Some ''credential.created'' \<and>
                  map_of entry ''credentialId'' = Some ''__timeout__'' \<and>
                  map_of entry ''result'' = Some ''success'' \<and>
                  map_of entry ''details'' = Some ''via dashboard'' \<and>
                  map_of entry ''timestamp'' = Some demo_now) \<and>
        pendingCallbacks g' demo_token = None \<and>
        vaultAdd_returns 0 g' =
          Some \<lparr>ad_status = ''timeout'', ad_site_id = None,
                ad_message = ''Credential form was not submitted within 5 minutes. Try again with vault_add.''\<rparr>)"
proof -
  obtain resp st' g' w' where p: "post_credentials demo_platform (demo_store []) demo_logger
      demo_gateway demo_post demo_uuid demo_now demo_iv demo_nk demo_now demo_world = (resp, st', g', w')"
    by (metis prod_cases4)
  have f: "files demo_world (auditFile demo_logger) = None" by (simp add: demo_world_def)
  from sentinel_submission_times_out[OF demo_post_hyps p] demo_post_hyps(1,2,4,5,6)
  show ?thesis
    by (simp add: p f)
       (rule exI[of _ "new_entry demo_platform [] ''credential.created'' ''__timeout__'' success None
                         (Some ''via dashboard'') demo_now"], simp)
qed

text \<open>
  Claim C9 as stated (every such submission) fails when the audit log cannot be read:
  its file holds a line that is not JSON. The submission carries the token of a
  registered, unresolved slot and names the site \<open>__timeout__\<close>; the handler stores the
  credential and writes the credentials file, then \<open>log\<close> throws: the handler answers
  500, the audit file is as it was (no \<open>credential.created\<close> entry), the slot stays
  registered and the waiting \<open>vault_add\<close> call is not resolved.
\<close>

theorem sentinel_submission_unreadable_log_counterexample:
  "pendingCallbacks demo_gateway demo_token = Some 0 \<and> settled demo_gateway 0 = None \<and>
   pb_token demo_post = Some demo_token \<and> pb_siteId demo_post = ''__timeout__'' \<and>
   getEntries demo_logger None unreadable_audit_world = Inl SyntaxError \<and>
   (case post_credentials demo_platform (demo_store []) demo_logger demo_gateway demo_post
           demo_uuid demo_now demo_iv demo_nk demo_now unreadable_audit_world of
      (resp, st', g', w') \<Rightarrow>
        resp = InternalServerError \<and>
        (\<exists>stored. credentials st' = [stored] \<and> siteId stored = ''__timeout__'') \<and>
        files w' (credentialsFile (demo_store [])) =
          Some (credentials_stringify demo_platform (credentials st')) \<and>
        files w' (auditFile demo_logger) = Some (''x'' @ [CHR 0x0A]) \<and>
        pendingCallbacks g' demo_token = Some 0 \<and>
        vaultAdd_returns 0 g' = None)"
proof -
  obtain resp st' g' w' where p: "post_credentials demo_platform (demo_store []) demo_logger
      demo_gateway demo_post demo_uuid demo_now demo_iv demo_nk demo_now unreadable_audit_world
        = (resp, st', g', w')"
    by (metis prod_cases4)
  have f: "files unreadable_audit_world (auditFile demo_logger) = Some (''x'' @ [CHR 0x0A])"
    by (simp add: unreadable_audit_world_def)
  have tr: "trim (''x'' @ [CHR 0x0A]) = ''x''"
    by (rule trim_solid) (simp_all add: plain_def)
  have rej: "JSON_parse ''x'' = Rejected"
    by (simp add: JSON_parse_def skip_ws_def is_json_ws_def value_start_def)
  have g: "getEntries demo_logger None unreadable_audit_world = Inl SyntaxError"
    by (simp add: getEntries_def readFile_def f tr rej del: append.simps)
  have c: "credentials (demo_store []) = []" by (simp add: demo_store_def)
  from post_credentials_unreadable[OF g demo_post_hyps(7,8) p] demo_post_hyps(1,2,4,5) g
  show ?thesis
    by (simp add: p f c vaultAdd_returns_def)
qed

text \<open>
  Claim C8 at the input where the code departs from it: the add call registered
  \<open>demo_token\<close>, the form is submitted with that token before the timeout, the
  submission wins the slot, and the waiting call returns status \<open>timeout\<close>, not
  \<open>success\<close> with the site identifier.
\<close>

theorem vaultAdd_sentinel_collision:
  "vaultAdd_returns 0 demo_gateway = None \<and>
   vaultAdd_returns 0
     (fst (snd (snd (post_credentials demo_platform (demo_store []) demo_logger demo_gateway demo_post
                       demo_uuid demo_now demo_iv demo_nk demo_now demo_world)))) =
     Some \<lparr>ad_status = ''timeout'', ad_site_id = None,
           ad_message = ''Credential form was not submitted within 5 minutes. Try again with vault_add.''\<rparr>"
proof -
  obtain resp st' g' w' where p: "post_credentials demo_platform (demo_store []) demo_logger
      demo_gateway demo_post demo_uuid demo_now demo_iv demo_nk demo_now demo_world = (resp, st', g', w')"
    by (metis prod_cases4)
  from post_credentials_effect[OF demo_post_hyps(1-4,6-8) p]
  have "vaultAdd_returns 0 g' = Some (vaultAdd_finish (pb_siteId demo_post))" by simp
  moreover have "vaultAdd_returns 0 demo_gateway = None"
    by (simp add: vaultAdd_returns_def demo_gateway_value)
  ultimately show ?thesis
    by (simp add: p demo_post_hyps(5) vaultAdd_finish_def)
qed

end
